theory Spec2Isabelle
  imports Main "HOL-Library.Word"
begin

section \<open>Errors and results\<close>

text \<open>
  Every failure of \<^verbatim>\<open>managed_buffer.cpp\<close> goes through \<^verbatim>\<open>exception(msg)\<close>. One
  constructor stands for each message of the source; the two remaining constructors stand
  for behaviour the C++ leaves undefined (a vector read past its end) and for a failure
  inside the render engine.
\<close>

datatype error =
    RenderBufferNotAllocated
  | OutOfBoundsAccess string "64 word"
  | RecomputeNotComputed
  | IndexedViewNeedsCompute
  | NoDataSource string
  | NoBuffersForIndexCopy string
  | InvalidMemoryAccess
  | DeviceError

text \<open>
  Modelled from the spec: \<^verbatim>\<open>exception\<close> (polyscope/messages.h is not part of the sources
  at hand). Section 7 of the specification: every error aborts the current operation by
  raising to the caller, and nothing is rolled back. A raise therefore carries the state
  reached so far, as a normal return does.
\<close>

datatype ('r, 's) result = Return 'r 's | Throw error 's

fun andThen :: "('r, 's) result \<Rightarrow> ('r \<Rightarrow> 's \<Rightarrow> ('q, 's) result) \<Rightarrow> ('q, 's) result" where
  "andThen (Return r s) f = f r s"
| "andThen (Throw e s) f = Throw e s"

fun stateOf :: "('r, 's) result \<Rightarrow> 's" where
  "stateOf (Return r s) = s"
| "stateOf (Throw e s) = s"

fun returns :: "('r, 's) result \<Rightarrow> bool" where
  "returns (Return r s) = True"
| "returns (Throw e s) = False"

fun valueOf :: "('r, 's) result \<Rightarrow> 'r option" where
  "valueOf (Return r s) = Some r"
| "valueOf (Throw e s) = None"

fun mapState :: "('s \<Rightarrow> 't) \<Rightarrow> ('r, 's) result \<Rightarrow> ('r, 't) result" where
  "mapState g (Return r s) = Return r (g s)"
| "mapState g (Throw e s) = Throw e (g s)"

section \<open>Data model\<close>

type_synonym addr = nat

text \<open>\<^verbatim>\<open>size_t\<close> and \<^verbatim>\<open>int64_t\<close> are 64-bit words, \<^verbatim>\<open>uint32_t\<close> is a 32-bit word.\<close>

type_synonym size_t = "64 word"
type_synonym uint32_t = "32 word"

datatype CanonicalDataSource = HostData | NeedsCompute | RenderBuffer

text \<open>
  The feedback program of a cache entry: the two attribute bindings and the index stream
  handed to \<^verbatim>\<open>setIndex\<close> (absent until \<^verbatim>\<open>setIndex\<close> has run).
\<close>

record ShaderProgram =
  a_val_in :: addr
  a_val_out :: addr
  shaderIndex :: "uint32_t list option"

text \<open>
  \<^verbatim>\<open>ExistingViewEntry\<close>: a raw pointer to the index buffer, a weak pointer to the view
  buffer, and the lazily created device-side update program.
\<close>

record ExistingViewEntry =
  indices :: addr
  viewBuffer :: addr
  deviceUpdateProgram :: "ShaderProgram option"

text \<open>
  The fields of \<^verbatim>\<open>ManagedBuffer<T>\<close>. The member \<^verbatim>\<open>computeFunc\<close> is a callback of the
  producer; it is not stored here but passed to every operation that may invoke it.
\<close>

record 'a ManagedBuffer =
  name :: string
  uniqueID :: nat
  data :: "'a list"
  dataGetsComputed :: bool
  hostBufferIsPopulated :: bool
  renderAttributeBuffer :: "addr option"
  existingIndexedViews :: "ExistingViewEntry list"

text \<open>
  The index buffers (objects of type \<^verbatim>\<open>ManagedBuffer<uint32_t>\<close>, by address) and the
  contents of their device buffers.
\<close>

record idx_state =
  indexBuffers :: "addr \<Rightarrow> uint32_t ManagedBuffer"
  indexAttributeData :: "addr \<Rightarrow> uint32_t list"

text \<open>
  Everything an operation of one \<^verbatim>\<open>ManagedBuffer<T>\<close> can reach: the object itself, the
  contents of the \<^verbatim>\<open>AttributeBuffer\<close> objects of element type \<^verbatim>\<open>T\<close>, which of them
  still have a strong holder (what \<^verbatim>\<open>weak_ptr::lock\<close> and \<^verbatim>\<open>expired\<close> observe), the next
  object identity the engine hands out, the index side, and the global redraw flag.
  \<open>computeCalls\<close> is instrumentation: it counts the invocations of \<^verbatim>\<open>computeFunc\<close>.
\<close>

record 'a world =
  buffer :: "'a ManagedBuffer"
  attributeData :: "addr \<Rightarrow> 'a list"
  alive :: "addr \<Rightarrow> bool"
  nextAttributeBuffer :: addr
  idx :: idx_state
  redrawRequested :: bool
  computeCalls :: nat

type_synonym 'a computeFunc = "'a world \<Rightarrow> (unit, 'a world) result"

text \<open>
  The compute function of the index buffer at an address. It belongs to the producer of
  the index buffer and acts on the index side only.
\<close>

type_synonym indexComputeFunc = "addr \<Rightarrow> idx_state \<Rightarrow> (unit, idx_state) result"

subsection \<open>Constructors\<close>

text \<open>The identity \<^verbatim>\<open>internal::getNextUniqueID()\<close> is a parameter.\<close>

definition ManagedBuffer_host :: "string \<Rightarrow> nat \<Rightarrow> 'a list \<Rightarrow> 'a ManagedBuffer" where
  "ManagedBuffer_host nm uid xs =
     \<lparr>name = nm, uniqueID = uid, data = xs, dataGetsComputed = False,
      hostBufferIsPopulated = True, renderAttributeBuffer = None, existingIndexedViews = []\<rparr>"

definition ManagedBuffer_computed :: "string \<Rightarrow> nat \<Rightarrow> 'a list \<Rightarrow> 'a ManagedBuffer" where
  "ManagedBuffer_computed nm uid xs =
     \<lparr>name = nm, uniqueID = uid, data = xs, dataGetsComputed = True,
      hostBufferIsPopulated = False, renderAttributeBuffer = None, existingIndexedViews = []\<rparr>"

section \<open>The render engine\<close>

text \<open>
  Modelled from the spec: the \<^verbatim>\<open>AttributeBuffer\<close> interface of section 6 (engine.h and
  templated_buffers.h are not part of the sources at hand): allocate a device buffer,
  replace its contents from a host sequence, read back a contiguous range, read a single
  element by index, query the element count. The element count is an \<^verbatim>\<open>int64_t\<close>. The
  specification does not say what a read outside the buffer does; the model reports it as
  \<open>DeviceError\<close>.
\<close>

definition getDataSize :: "'b list \<Rightarrow> size_t" where
  "getDataSize xs = of_nat (length xs)"

definition getAttributeBufferDataRange :: "'b list \<Rightarrow> size_t \<Rightarrow> size_t \<Rightarrow> 'b list" where
  "getAttributeBufferDataRange xs start count = take (unat count) (drop (unat start) xs)"

definition getAttributeBufferData :: "'b list \<Rightarrow> size_t \<Rightarrow> error + 'b" where
  "getAttributeBufferData xs ind =
     (if unat ind < length xs then Inr (xs ! unat ind) else Inl DeviceError)"

definition setData :: "addr \<Rightarrow> 'a list \<Rightarrow> 'a world \<Rightarrow> 'a world" where
  "setData a xs w = w\<lparr>attributeData := (attributeData w)(a := xs)\<rparr>"

text \<open>
  \<^verbatim>\<open>generateAttributeBuffer\<close> returns a new object: an identity never handed out before,
  no contents yet, held by the shared pointer that receives it.
\<close>

definition generateAttributeBuffer :: "'a world \<Rightarrow> addr \<times> 'a world" where
  "generateAttributeBuffer w =
     (nextAttributeBuffer w,
      w\<lparr>attributeData := (attributeData w)(nextAttributeBuffer w := []),
        alive := (alive w)(nextAttributeBuffer w := True),
        nextAttributeBuffer := Suc (nextAttributeBuffer w)\<rparr>)"

text \<open>The last shared pointer to an object goes away.\<close>

definition release :: "addr \<Rightarrow> 'a world \<Rightarrow> 'a world" where
  "release a w = w\<lparr>alive := (alive w)(a := False)\<rparr>"

text \<open>Modelled from the spec: \<^verbatim>\<open>requestRedraw\<close> (polyscope.h) raises the redraw flag.\<close>

definition requestRedraw :: "'a world \<Rightarrow> 'a world" where
  "requestRedraw w = w\<lparr>redrawRequested := True\<rparr>"

text \<open>
  Modelled from the spec: \<^verbatim>\<open>gather\<close> (its definition is not part of the sources at
  hand): \<open>expanded[k] = data[indices[k]]\<close> for all \<open>k\<close>. An index past the end of the
  input reads outside the vector, which C++ leaves undefined.
\<close>

definition gather :: "'b list \<Rightarrow> uint32_t list \<Rightarrow> error + 'b list" where
  "gather input perm =
     (if list_all (\<lambda>i. unat i < length input) perm
      then Inr (map (\<lambda>i. input ! unat i) perm)
      else Inl InvalidMemoryAccess)"

text \<open>
  Modelled from the spec: \<^verbatim>\<open>ShaderProgram::computeFeedback\<close> for the gather program
  (section 4.4): copy \<open>source[indices[k]]\<close> to \<open>view[k]\<close> on the device. A program whose
  index stream was never set, or whose index stream points outside the source buffer, is
  reported as \<open>DeviceError\<close>.
\<close>

definition computeFeedback :: "ShaderProgram \<Rightarrow> 'a world \<Rightarrow> (unit, 'a world) result" where
  "computeFeedback prog w =
     (case shaderIndex prog of
        None \<Rightarrow> Throw DeviceError w
      | Some is \<Rightarrow>
          (case gather (attributeData w (a_val_in prog)) is of
             Inl e \<Rightarrow> Throw DeviceError w
           | Inr out \<Rightarrow> Return () (setData (a_val_out prog) out w)))"

section \<open>Operations of ManagedBuffer\<close>

definition currentCanonicalDataSource :: "'b ManagedBuffer \<Rightarrow> error + CanonicalDataSource" where
  "currentCanonicalDataSource b =
     (if hostBufferIsPopulated b then Inr HostData
      else if renderAttributeBuffer b \<noteq> None then Inr RenderBuffer
      else if dataGetsComputed b then Inr NeedsCompute
      else Inl (NoDataSource (name b)))"

text \<open>A call of the member \<^verbatim>\<open>computeFunc\<close>.\<close>

definition invokeComputeFunc :: "'a computeFunc \<Rightarrow> 'a world \<Rightarrow> (unit, 'a world) result" where
  "invokeComputeFunc cf w = cf (w\<lparr>computeCalls := Suc (computeCalls w)\<rparr>)"

definition ensureHostBufferPopulated :: "'a computeFunc \<Rightarrow> 'a world \<Rightarrow> (unit, 'a world) result" where
  "ensureHostBufferPopulated cf w =
     (case currentCanonicalDataSource (buffer w) of
        Inl e \<Rightarrow> Throw e w
      | Inr HostData \<Rightarrow> Return () w
      | Inr NeedsCompute \<Rightarrow> invokeComputeFunc cf w
      | Inr RenderBuffer \<Rightarrow>
          (case renderAttributeBuffer (buffer w) of
             None \<Rightarrow> Throw RenderBufferNotAllocated w
           | Some a \<Rightarrow>
               Return () (w\<lparr>buffer := (buffer w)\<lparr>data :=
                 getAttributeBufferDataRange (attributeData w a) 0
                   (getDataSize (attributeData w a))\<rparr>\<rparr>)))"

text \<open>
  The same member function in the instantiation \<^verbatim>\<open>ManagedBuffer<uint32_t>\<close>, called on
  the index buffer at address \<open>p\<close>.
\<close>

definition indices_ensureHostBufferPopulated ::
  "indexComputeFunc \<Rightarrow> addr \<Rightarrow> idx_state \<Rightarrow> (unit, idx_state) result" where
  "indices_ensureHostBufferPopulated icf p s =
     (case currentCanonicalDataSource (indexBuffers s p) of
        Inl e \<Rightarrow> Throw e s
      | Inr HostData \<Rightarrow> Return () s
      | Inr NeedsCompute \<Rightarrow> icf p s
      | Inr RenderBuffer \<Rightarrow>
          (case renderAttributeBuffer (indexBuffers s p) of
             None \<Rightarrow> Throw RenderBufferNotAllocated s
           | Some a \<Rightarrow>
               Return () (s\<lparr>indexBuffers := (indexBuffers s)(p := (indexBuffers s p)\<lparr>data :=
                 getAttributeBufferDataRange (indexAttributeData s a) 0
                   (getDataSize (indexAttributeData s a))\<rparr>)\<rparr>)))"

text \<open>The call \<^verbatim>\<open>indices.ensureHostBufferPopulated()\<close> made from the source buffer.\<close>

definition ensureIndices :: "indexComputeFunc \<Rightarrow> addr \<Rightarrow> 'a world \<Rightarrow> (unit, 'a world) result" where
  "ensureIndices icf p w =
     mapState (\<lambda>s. w\<lparr>idx := s\<rparr>) (indices_ensureHostBufferPopulated icf p (idx w))"

definition removeDeletedIndexedViews :: "'a world \<Rightarrow> 'a world" where
  "removeDeletedIndexedViews w =
     w\<lparr>buffer := (buffer w)\<lparr>existingIndexedViews :=
         filter (\<lambda>entry. alive w (viewBuffer entry)) (existingIndexedViews (buffer w))\<rparr>\<rparr>"

definition invalidateHostBuffer :: "'a world \<Rightarrow> 'a world" where
  "invalidateHostBuffer w =
     w\<lparr>buffer := (buffer w)\<lparr>hostBufferIsPopulated := False, data := []\<rparr>\<rparr>"

text \<open>
  \<^verbatim>\<open>ensureHaveBufferIndexCopyProgram\<close>, called for the entry at position \<open>i\<close> of the
  cache. The program is stored in the entry as soon as it is requested, so a raise of
  \<^verbatim>\<open>indices.ensureHostBufferPopulated()\<close> leaves a program without index stream behind.
\<close>

definition ensureHaveBufferIndexCopyProgram ::
  "indexComputeFunc \<Rightarrow> nat \<Rightarrow> ExistingViewEntry \<Rightarrow> 'a world \<Rightarrow> (ShaderProgram, 'a world) result" where
  "ensureHaveBufferIndexCopyProgram icf i view w =
     (case deviceUpdateProgram view of
        Some prog \<Rightarrow> Return prog w
      | None \<Rightarrow>
          (case renderAttributeBuffer (buffer w) of
             None \<Rightarrow> Throw (NoBuffersForIndexCopy (name (buffer w))) w
           | Some src \<Rightarrow>
               (let prog = \<lparr>a_val_in = src, a_val_out = viewBuffer view, shaderIndex = None\<rparr>;
                    w1 = w\<lparr>buffer := (buffer w)\<lparr>existingIndexedViews :=
                           (existingIndexedViews (buffer w))
                             [i := view\<lparr>deviceUpdateProgram := Some prog\<rparr>]\<rparr>\<rparr>
                in andThen (ensureIndices icf (indices view) w1) (\<lambda>_ w2.
                     (let prog' = prog\<lparr>shaderIndex := Some (data (indexBuffers (idx w2) (indices view)))\<rparr>
                      in Return prog'
                           (w2\<lparr>buffer := (buffer w2)\<lparr>existingIndexedViews :=
                              (existingIndexedViews (buffer w2))
                                [i := view\<lparr>deviceUpdateProgram := Some prog'\<rparr>]\<rparr>\<rparr>))))))"

text \<open>
  The body of the loop of \<^verbatim>\<open>updateIndexedViews\<close> for a cache entry whose view buffer is
  still alive: the switch over the canonical data source.
\<close>

definition updateIndexedView ::
  "indexComputeFunc \<Rightarrow> nat \<Rightarrow> ExistingViewEntry \<Rightarrow> 'a world \<Rightarrow> (unit, 'a world) result" where
  "updateIndexedView icf i view w =
     (case currentCanonicalDataSource (buffer w) of
        Inl e \<Rightarrow> Throw e w
      | Inr HostData \<Rightarrow>
          andThen (ensureIndices icf (indices view) w) (\<lambda>_ w1.
            (case gather (data (buffer w1)) (data (indexBuffers (idx w1) (indices view))) of
               Inl e \<Rightarrow> Throw e w1
             | Inr expandData \<Rightarrow> Return () (setData (viewBuffer view) expandData w1)))
      | Inr NeedsCompute \<Rightarrow> Throw IndexedViewNeedsCompute w
      | Inr RenderBuffer \<Rightarrow>
          andThen (ensureHaveBufferIndexCopyProgram icf i view w) (\<lambda>prog w1.
            computeFeedback prog w1))"

text \<open>The loop itself, over the entries from position \<open>i\<close> on.\<close>

fun updateIndexedViews_loop ::
  "indexComputeFunc \<Rightarrow> nat \<Rightarrow> ExistingViewEntry list \<Rightarrow> 'a world \<Rightarrow> (unit, 'a world) result" where
  "updateIndexedViews_loop icf i [] w = Return () w"
| "updateIndexedViews_loop icf i (view # rest) w =
     (if \<not> alive w (viewBuffer view) then updateIndexedViews_loop icf (Suc i) rest w
      else
        (case updateIndexedView icf i view w of
           Throw e w1 \<Rightarrow> Throw e w1
         | Return u w1 \<Rightarrow> updateIndexedViews_loop icf (Suc i) rest w1))"

definition updateIndexedViews :: "indexComputeFunc \<Rightarrow> 'a world \<Rightarrow> (unit, 'a world) result" where
  "updateIndexedViews icf w =
     (let w0 = removeDeletedIndexedViews w
      in updateIndexedViews_loop icf 0 (existingIndexedViews (buffer w0)) w0)"

definition markHostBufferUpdated :: "indexComputeFunc \<Rightarrow> 'a world \<Rightarrow> (unit, 'a world) result" where
  "markHostBufferUpdated icf w =
     (let w1 = w\<lparr>buffer := (buffer w)\<lparr>hostBufferIsPopulated := True\<rparr>\<rparr>;
          w2 = (case renderAttributeBuffer (buffer w1) of
                  None \<Rightarrow> w1
                | Some a \<Rightarrow> requestRedraw (setData a (data (buffer w1)) w1))
      in updateIndexedViews icf w2)"

definition getPopulatedHostBufferRef :: "'a computeFunc \<Rightarrow> 'a world \<Rightarrow> ('a list, 'a world) result" where
  "getPopulatedHostBufferRef cf w =
     andThen (ensureHostBufferPopulated cf w) (\<lambda>_ w1. Return (data (buffer w1)) w1)"

text \<open>\<^verbatim>\<open>data.size()\<close> of a \<^verbatim>\<open>std::vector\<close>, a \<^verbatim>\<open>size_t\<close>.\<close>

definition vector_size :: "'b list \<Rightarrow> size_t" where
  "vector_size xs = of_nat (length xs)"

text \<open>
  \<^verbatim>\<open>getValue\<close>. The host branches compare two \<^verbatim>\<open>size_t\<close> values; the device branch
  compares \<^verbatim>\<open>static_cast<int64_t>(ind)\<close> with the \<^verbatim>\<open>int64_t\<close> element count, a signed
  comparison. Dereferencing a null \<^verbatim>\<open>renderAttributeBuffer\<close> is undefined in C++.
\<close>

definition getValue :: "'a computeFunc \<Rightarrow> size_t \<Rightarrow> 'a world \<Rightarrow> ('a, 'a world) result" where
  "getValue cf ind w =
     (case currentCanonicalDataSource (buffer w) of
        Inl e \<Rightarrow> Throw e w
      | Inr HostData \<Rightarrow>
          (if vector_size (data (buffer w)) \<le> ind
           then Throw (OutOfBoundsAccess (name (buffer w)) ind) w
           else Return (data (buffer w) ! unat ind) w)
      | Inr NeedsCompute \<Rightarrow>
          andThen (invokeComputeFunc cf w) (\<lambda>_ w1.
            (if vector_size (data (buffer w1)) \<le> ind
             then Throw (OutOfBoundsAccess (name (buffer w1)) ind) w1
             else Return (data (buffer w1) ! unat ind) w1))
      | Inr RenderBuffer \<Rightarrow>
          (case renderAttributeBuffer (buffer w) of
             None \<Rightarrow> Throw InvalidMemoryAccess w
           | Some a \<Rightarrow>
               (if sint (getDataSize (attributeData w a)) \<le> sint ind
                then Throw (OutOfBoundsAccess (name (buffer w)) ind) w
                else (case getAttributeBufferData (attributeData w a) ind of
                        Inl e \<Rightarrow> Throw e w
                      | Inr val \<Rightarrow> Return val w))))"

text \<open>
  \<^verbatim>\<open>size\<close>. The cast of the \<^verbatim>\<open>int64_t\<close> element count to \<^verbatim>\<open>size_t\<close> keeps the bits. The
  closing \<^verbatim>\<open>return INVALID_IND\<close> of the source is never reached: the switch returns or
  raises in every case.
\<close>

definition size_buffer :: "'a world \<Rightarrow> (size_t, 'a world) result" where
  "size_buffer w =
     (case currentCanonicalDataSource (buffer w) of
        Inl e \<Rightarrow> Throw e w
      | Inr HostData \<Rightarrow> Return (vector_size (data (buffer w))) w
      | Inr NeedsCompute \<Rightarrow> Return 0 w
      | Inr RenderBuffer \<Rightarrow>
          (case renderAttributeBuffer (buffer w) of
             None \<Rightarrow> Throw InvalidMemoryAccess w
           | Some a \<Rightarrow> Return (getDataSize (attributeData w a)) w))"

definition hasData :: "'b ManagedBuffer \<Rightarrow> bool" where
  "hasData b = (if hostBufferIsPopulated b then True else renderAttributeBuffer b \<noteq> None)"

definition recomputeIfPopulated ::
  "'a computeFunc \<Rightarrow> indexComputeFunc \<Rightarrow> 'a world \<Rightarrow> (unit, 'a world) result" where
  "recomputeIfPopulated cf icf w =
     (if \<not> dataGetsComputed (buffer w) then Throw RecomputeNotComputed w
      else
        (case currentCanonicalDataSource (buffer w) of
           Inl e \<Rightarrow> Throw e w
         | Inr src \<Rightarrow>
             (if src = NeedsCompute then Return () w
              else andThen (invokeComputeFunc cf (invalidateHostBuffer w)) (\<lambda>_ w1.
                     markHostBufferUpdated icf w1))))"

definition getRenderAttributeBuffer :: "'a computeFunc \<Rightarrow> 'a world \<Rightarrow> (addr, 'a world) result" where
  "getRenderAttributeBuffer cf w =
     (case renderAttributeBuffer (buffer w) of
        Some a \<Rightarrow> Return a w
      | None \<Rightarrow>
          andThen (ensureHostBufferPopulated cf w) (\<lambda>_ w1.
            (case generateAttributeBuffer w1 of
               (a, w2) \<Rightarrow>
                 (let w3 = w2\<lparr>buffer := (buffer w2)\<lparr>renderAttributeBuffer := Some a\<rparr>\<rparr>
                  in Return a (setData a (data (buffer w3)) w3)))))"

definition markRenderAttributeBufferUpdated ::
  "indexComputeFunc \<Rightarrow> 'a world \<Rightarrow> (unit, 'a world) result" where
  "markRenderAttributeBufferUpdated icf w =
     andThen (updateIndexedViews icf (invalidateHostBuffer w)) (\<lambda>_ w1.
       Return () (requestRedraw w1))"

text \<open>
  The lookup loop of \<^verbatim>\<open>getIndexedRenderAttributeBuffer\<close>: the first entry whose view
  buffer can still be locked and whose index buffer has the identity asked for.
\<close>

fun findIndexedView ::
  "(addr \<Rightarrow> bool) \<Rightarrow> (addr \<Rightarrow> uint32_t ManagedBuffer) \<Rightarrow> nat \<Rightarrow> ExistingViewEntry list \<Rightarrow> addr option" where
  "findIndexedView live ibs uid [] = None"
| "findIndexedView live ibs uid (view # rest) =
     (if live (viewBuffer view)
      then (if uniqueID (ibs (indices view)) = uid then Some (viewBuffer view)
            else findIndexedView live ibs uid rest)
      else findIndexedView live ibs uid rest)"

text \<open>
  \<^verbatim>\<open>getIndexedRenderAttributeBuffer\<close> for the index buffer at address \<open>p\<close>. The local
  \<^verbatim>\<open>newBuffer\<close> is the only holder of the new object until it is returned, so a raise
  after the allocation releases it.
\<close>

definition getIndexedRenderAttributeBuffer ::
  "'a computeFunc \<Rightarrow> indexComputeFunc \<Rightarrow> addr \<Rightarrow> 'a world \<Rightarrow> (addr, 'a world) result" where
  "getIndexedRenderAttributeBuffer cf icf p w =
     (let w0 = removeDeletedIndexedViews w
      in case findIndexedView (alive w0) (indexBuffers (idx w0)) (uniqueID (indexBuffers (idx w0) p))
                (existingIndexedViews (buffer w0)) of
           Some viewBufferPtr \<Rightarrow> Return viewBufferPtr w0
         | None \<Rightarrow>
             andThen (ensureHostBufferPopulated cf w0) (\<lambda>_ w1.
               (case generateAttributeBuffer w1 of
                  (newBuffer, w2) \<Rightarrow>
                    (case ensureIndices icf p w2 of
                       Throw e w3 \<Rightarrow> Throw e (release newBuffer w3)
                     | Return u w3 \<Rightarrow>
                         (case gather (data (buffer w3)) (data (indexBuffers (idx w3) p)) of
                            Inl e \<Rightarrow> Throw e (release newBuffer w3)
                          | Inr expandData \<Rightarrow>
                              (let w4 = setData newBuffer expandData w3
                               in Return newBuffer
                                    (w4\<lparr>buffer := (buffer w4)\<lparr>existingIndexedViews :=
                                       existingIndexedViews (buffer w4) @
                                         [\<lparr>indices = p, viewBuffer = newBuffer,
                                           deviceUpdateProgram = None\<rparr>]\<rparr>\<rparr>)))))))"

section \<open>Producers and callers\<close>

text \<open>
  The contract of \<^verbatim>\<open>computeFunc\<close> (section 3 of the specification): it populates the host
  array and then calls the update notification itself.
\<close>

definition populateAndNotify :: "('a world \<Rightarrow> 'a list) \<Rightarrow> indexComputeFunc \<Rightarrow> 'a computeFunc" where
  "populateAndNotify fill icf w =
     markHostBufferUpdated icf (w\<lparr>buffer := (buffer w)\<lparr>data := fill w\<rparr>\<rparr>)"

text \<open>The producer writes the host array it owns.\<close>

definition writeHostData :: "'a list \<Rightarrow> 'a world \<Rightarrow> 'a world" where
  "writeHostData xs w = w\<lparr>buffer := (buffer w)\<lparr>data := xs\<rparr>\<rparr>"

text \<open>A caller evaluates \<^verbatim>\<open>buffer.getValue(buffer.size())\<close>.\<close>

definition getValueAtSize :: "'a computeFunc \<Rightarrow> 'a world \<Rightarrow> ('a, 'a world) result" where
  "getValueAtSize cf w = andThen (size_buffer w) (\<lambda>n w1. getValue cf n w1)"

text \<open>The member functions of the class, as one step function on the state.\<close>

datatype 'a operation =
    EnsureHostBufferPopulated
  | GetPopulatedHostBufferRef
  | MarkHostBufferUpdated
  | GetValue size_t
  | Size
  | RecomputeIfPopulated
  | GetRenderAttributeBuffer
  | MarkRenderAttributeBufferUpdated
  | GetIndexedRenderAttributeBuffer addr
  | UpdateIndexedViews
  | RemoveDeletedIndexedViews
  | InvalidateHostBuffer
  | WriteHostData "'a list"

fun perform :: "'a computeFunc \<Rightarrow> indexComputeFunc \<Rightarrow> 'a operation \<Rightarrow> 'a world \<Rightarrow> 'a world" where
  "perform cf icf EnsureHostBufferPopulated w = stateOf (ensureHostBufferPopulated cf w)"
| "perform cf icf GetPopulatedHostBufferRef w = stateOf (getPopulatedHostBufferRef cf w)"
| "perform cf icf MarkHostBufferUpdated w = stateOf (markHostBufferUpdated icf w)"
| "perform cf icf (GetValue ind) w = stateOf (getValue cf ind w)"
| "perform cf icf Size w = stateOf (size_buffer w)"
| "perform cf icf RecomputeIfPopulated w = stateOf (recomputeIfPopulated cf icf w)"
| "perform cf icf GetRenderAttributeBuffer w = stateOf (getRenderAttributeBuffer cf w)"
| "perform cf icf MarkRenderAttributeBufferUpdated w = stateOf (markRenderAttributeBufferUpdated icf w)"
| "perform cf icf (GetIndexedRenderAttributeBuffer p) w = stateOf (getIndexedRenderAttributeBuffer cf icf p w)"
| "perform cf icf UpdateIndexedViews w = stateOf (updateIndexedViews icf w)"
| "perform cf icf RemoveDeletedIndexedViews w = removeDeletedIndexedViews w"
| "perform cf icf InvalidateHostBuffer w = invalidateHostBuffer w"
| "perform cf icf (WriteHostData xs) w = writeHostData xs w"

section \<open>Auxiliary notions\<close>

text \<open>
  What the refresh of the indexed views leaves alone: every field of the buffer except the
  cache itself, the liveness of the device buffers, the allocator, the redraw flag and the
  count of compute calls.
\<close>

definition sameExceptViews :: "'a world \<Rightarrow> 'a world \<Rightarrow> bool" where
  "sameExceptViews w w' =
     (name (buffer w') = name (buffer w) \<and>
      uniqueID (buffer w') = uniqueID (buffer w) \<and>
      data (buffer w') = data (buffer w) \<and>
      dataGetsComputed (buffer w') = dataGetsComputed (buffer w) \<and>
      hostBufferIsPopulated (buffer w') = hostBufferIsPopulated (buffer w) \<and>
      renderAttributeBuffer (buffer w') = renderAttributeBuffer (buffer w) \<and>
      alive w' = alive w \<and>
      nextAttributeBuffer w' = nextAttributeBuffer w \<and>
      redrawRequested w' = redrawRequested w \<and>
      computeCalls w' = computeCalls w)"




text \<open>
  A cache entry after a call, compared with the entry before: the same index buffer and
  the same view buffer, and the update program it had, if it had one.
\<close>

definition entryKept :: "ExistingViewEntry \<Rightarrow> ExistingViewEntry \<Rightarrow> bool" where
  "entryKept entry entry' =
     (indices entry' = indices entry \<and> viewBuffer entry' = viewBuffer entry \<and>
      (case deviceUpdateProgram entry of
         None \<Rightarrow> True
       | Some prog \<Rightarrow> deviceUpdateProgram entry' = Some prog))"




text \<open>A sequence of calls, one after the other.\<close>

fun performAll :: "'a computeFunc \<Rightarrow> indexComputeFunc \<Rightarrow> 'a operation list \<Rightarrow> 'a world \<Rightarrow> 'a world" where
  "performAll cf icf [] w = w"
| "performAll cf icf (op # ops) w = performAll cf icf ops (perform cf icf op w)"

text \<open>
  The operations that call \<^verbatim>\<open>computeFunc\<close> when the canonical source is a pending
  computation.
\<close>

fun computesOnDemand :: "'a operation \<Rightarrow> bool" where
  "computesOnDemand EnsureHostBufferPopulated = True"
| "computesOnDemand GetPopulatedHostBufferRef = True"
| "computesOnDemand (GetValue ind) = True"
| "computesOnDemand GetRenderAttributeBuffer = True"
| "computesOnDemand (GetIndexedRenderAttributeBuffer p) = True"
| "computesOnDemand other = False"

section \<open>Example states\<close>

text \<open>An index compute function that leaves everything as it is.\<close>

definition idleIndexCompute :: indexComputeFunc where
  "idleIndexCompute p s = Return () s"

text \<open>A compute function under the contract: it fills the host array with \<open>[5, 6, 7]\<close>.\<close>

definition exampleFill :: "int world \<Rightarrow> int list" where
  "exampleFill w = [5, 6, 7]"

definition exampleComputeFunc :: "int computeFunc" where
  "exampleComputeFunc = populateAndNotify exampleFill idleIndexCompute"

text \<open>A compute function under the contract that leaves the host array empty.\<close>

definition exampleEmptyFill :: "int world \<Rightarrow> int list" where
  "exampleEmptyFill w = []"

definition exampleEmptyComputeFunc :: "int computeFunc" where
  "exampleEmptyComputeFunc = populateAndNotify exampleEmptyFill idleIndexCompute"

text \<open>
  A compute function under the contract that shows the host array it finds: it appends 7
  to it.
\<close>

definition exampleAppendFill :: "int world \<Rightarrow> int list" where
  "exampleAppendFill w = data (buffer w) @ [7]"

definition exampleAppendComputeFunc :: "int computeFunc" where
  "exampleAppendComputeFunc = populateAndNotify exampleAppendFill idleIndexCompute"

text \<open>Index buffers bound to the populated host array \<open>[2, 0, 1]\<close>.\<close>

definition exampleIndices :: idx_state where
  "exampleIndices =
     \<lparr>indexBuffers = (\<lambda>p. ManagedBuffer_host ''indices'' (Suc p) [2, 0, 1]),
      indexAttributeData = (\<lambda>a. [])\<rparr>"

text \<open>
  Index buffers whose data \<open>[2, 0, 1]\<close> is held on the device only: the host array is
  empty and not populated.
\<close>

definition exampleDeviceIndices :: idx_state where
  "exampleDeviceIndices =
     \<lparr>indexBuffers = (\<lambda>p. (ManagedBuffer_computed ''indices'' (Suc p) [])
                              \<lparr>renderAttributeBuffer := Some p\<rparr>),
      indexAttributeData = (\<lambda>a. [2, 0, 1])\<rparr>"

text \<open>Index buffers that are still to be computed.\<close>

definition exampleLazyIndices :: idx_state where
  "exampleLazyIndices =
     \<lparr>indexBuffers = (\<lambda>p. ManagedBuffer_computed ''indices'' (Suc p) []),
      indexAttributeData = (\<lambda>a. [])\<rparr>"

text \<open>
  A compute function of an index buffer under the contract: it fills the host array with
  \<open>[2, 0, 1]\<close> and marks it as populated.
\<close>

definition exampleIndexCompute :: indexComputeFunc where
  "exampleIndexCompute p s =
     Return () (s\<lparr>indexBuffers := (indexBuffers s)
       (p := (indexBuffers s p)\<lparr>data := [2, 0, 1], hostBufferIsPopulated := True\<rparr>)\<rparr>)"

text \<open>A state around a given buffer in which the engine has handed out no object yet.\<close>

definition exampleWorld :: "'a ManagedBuffer \<Rightarrow> 'a world" where
  "exampleWorld b =
     \<lparr>buffer = b, attributeData = (\<lambda>a. []), alive = (\<lambda>a. False), nextAttributeBuffer = 0,
      idx = exampleIndices, redrawRequested = False, computeCalls = 0\<rparr>"

text \<open>A state in which the buffer has a device buffer (object 0) and a given host flag.\<close>

definition exampleDeviceWorld :: "bool \<Rightarrow> 'a list \<Rightarrow> 'a list \<Rightarrow> 'a world" where
  "exampleDeviceWorld populated host device =
     \<lparr>buffer = (ManagedBuffer_computed ''values'' 0 host)
                 \<lparr>hostBufferIsPopulated := populated, renderAttributeBuffer := Some 0\<rparr>,
      attributeData = (\<lambda>a. if a = 0 then device else []),
      alive = (\<lambda>a. a = 0), nextAttributeBuffer = 1,
      idx = exampleIndices, redrawRequested = False, computeCalls = 0\<rparr>"





section \<open>Frame of the view refresh\<close>

lemma sameExceptViews_refl [simp]: "sameExceptViews w w"
  by (simp add: sameExceptViews_def)

lemma sameExceptViews_trans:
  "sameExceptViews w w1 \<Longrightarrow> sameExceptViews w1 w2 \<Longrightarrow> sameExceptViews w w2"
  by (simp add: sameExceptViews_def)

lemma sameExceptViews_fields:
  assumes "sameExceptViews w w'"
  shows "name (buffer w') = name (buffer w)"
    and "uniqueID (buffer w') = uniqueID (buffer w)"
    and "data (buffer w') = data (buffer w)"
    and "dataGetsComputed (buffer w') = dataGetsComputed (buffer w)"
    and "hostBufferIsPopulated (buffer w') = hostBufferIsPopulated (buffer w)"
    and "renderAttributeBuffer (buffer w') = renderAttributeBuffer (buffer w)"
    and "alive w' = alive w"
    and "nextAttributeBuffer w' = nextAttributeBuffer w"
    and "redrawRequested w' = redrawRequested w"
    and "computeCalls w' = computeCalls w"
  using assms by (simp_all add: sameExceptViews_def)

lemma currentCanonicalDataSource_sameExceptViews:
  "sameExceptViews w w' \<Longrightarrow>
     currentCanonicalDataSource (buffer w') = currentCanonicalDataSource (buffer w)"
  by (simp add: currentCanonicalDataSource_def sameExceptViews_fields)

lemma ensureIndices_frame: "sameExceptViews w (stateOf (ensureIndices icf p w))"
  by (cases "indices_ensureHostBufferPopulated icf p (idx w)")
     (simp_all add: ensureIndices_def sameExceptViews_def)

lemma ensureIndices_state:
  "stateOf (ensureIndices icf p w) = w\<lparr>idx := stateOf (indices_ensureHostBufferPopulated icf p (idx w))\<rparr>"
  by (cases "indices_ensureHostBufferPopulated icf p (idx w)") (simp_all add: ensureIndices_def)

lemma setData_frame: "sameExceptViews w (setData a xs w)"
  by (simp add: setData_def sameExceptViews_def)

lemma computeFeedback_frame: "sameExceptViews w (stateOf (computeFeedback prog w))"
  by (simp add: computeFeedback_def setData_def sameExceptViews_def split: option.splits sum.splits)

lemma ensureHaveBufferIndexCopyProgram_frame:
  "sameExceptViews w (stateOf (ensureHaveBufferIndexCopyProgram icf i view w))"
  by (cases "indices_ensureHostBufferPopulated icf (indices view) (idx w)")
     (simp_all add: ensureHaveBufferIndexCopyProgram_def ensureIndices_def sameExceptViews_def
        Let_def split: option.splits)

lemma stateOf_andThen:
  "stateOf (andThen m f) = (case m of Return r s \<Rightarrow> stateOf (f r s) | Throw e s \<Rightarrow> s)"
  by (cases m) simp_all

lemma returns_unit:
  "returns r \<Longrightarrow> r = Return () (stateOf r)"
  by (cases r) simp_all

lemma updateIndexedView_frame: "sameExceptViews w (stateOf (updateIndexedView icf i view w))"
proof (cases "currentCanonicalDataSource (buffer w)")
  case (Inl e)
  then show ?thesis by (simp add: updateIndexedView_def)
next
  case (Inr src)
  show ?thesis
  proof (cases src)
    case HostData
    show ?thesis
    proof (cases "ensureIndices icf (indices view) w")
      case (Return u w1)
      with ensureIndices_frame [of w icf "indices view"] have "sameExceptViews w w1" by simp
      with Return Inr HostData show ?thesis
        by (auto simp: updateIndexedView_def split: sum.splits
              intro: sameExceptViews_trans setData_frame)
    next
      case (Throw e w1)
      with ensureIndices_frame [of w icf "indices view"] have "sameExceptViews w w1" by simp
      with Throw Inr HostData show ?thesis by (simp add: updateIndexedView_def)
    qed
  next
    case NeedsCompute
    with Inr show ?thesis by (simp add: updateIndexedView_def)
  next
    case RenderBuffer
    show ?thesis
    proof (cases "ensureHaveBufferIndexCopyProgram icf i view w")
      case (Return prog w1)
      with ensureHaveBufferIndexCopyProgram_frame [of w icf i view]
      have "sameExceptViews w w1" by simp
      with Return Inr RenderBuffer computeFeedback_frame [of w1 prog] show ?thesis
        by (auto simp: updateIndexedView_def intro: sameExceptViews_trans)
    next
      case (Throw e w1)
      with ensureHaveBufferIndexCopyProgram_frame [of w icf i view]
      have "sameExceptViews w w1" by simp
      with Throw Inr RenderBuffer show ?thesis by (simp add: updateIndexedView_def)
    qed
  qed
qed

lemma updateIndexedViews_loop_frame:
  "sameExceptViews w (stateOf (updateIndexedViews_loop icf i vs w))"
proof (induction vs arbitrary: i w)
  case Nil
  show ?case by simp
next
  case (Cons view rest)
  show ?case
  proof (cases "alive w (viewBuffer view)")
    case False
    with Cons.IH show ?thesis by simp
  next
    case True
    show ?thesis
    proof (cases "updateIndexedView icf i view w")
      case (Return u w1)
      with updateIndexedView_frame [of w icf i view] have "sameExceptViews w w1" by simp
      with True Return Cons.IH [of w1 "Suc i"] show ?thesis
        by (auto intro: sameExceptViews_trans)
    next
      case (Throw e w1)
      with updateIndexedView_frame [of w icf i view] True show ?thesis by simp
    qed
  qed
qed


lemma removeDeletedIndexedViews_frame: "sameExceptViews w (removeDeletedIndexedViews w)"
  by (simp add: removeDeletedIndexedViews_def sameExceptViews_def)

lemma updateIndexedViews_frame: "sameExceptViews w (stateOf (updateIndexedViews icf w))"
  unfolding updateIndexedViews_def Let_def
  by (rule sameExceptViews_trans [OF removeDeletedIndexedViews_frame updateIndexedViews_loop_frame])

lemma markHostBufferUpdated_fields:
  "hostBufferIsPopulated (buffer (stateOf (markHostBufferUpdated icf w)))"
  "name (buffer (stateOf (markHostBufferUpdated icf w))) = name (buffer w)"
  "uniqueID (buffer (stateOf (markHostBufferUpdated icf w))) = uniqueID (buffer w)"
  "data (buffer (stateOf (markHostBufferUpdated icf w))) = data (buffer w)"
  "dataGetsComputed (buffer (stateOf (markHostBufferUpdated icf w))) = dataGetsComputed (buffer w)"
  "renderAttributeBuffer (buffer (stateOf (markHostBufferUpdated icf w))) = renderAttributeBuffer (buffer w)"
  "alive (stateOf (markHostBufferUpdated icf w)) = alive w"
  "nextAttributeBuffer (stateOf (markHostBufferUpdated icf w)) = nextAttributeBuffer w"
  "computeCalls (stateOf (markHostBufferUpdated icf w)) = computeCalls w"
  unfolding markHostBufferUpdated_def Let_def
  by (simp_all add: sameExceptViews_fields [OF updateIndexedViews_frame]
        setData_def requestRedraw_def split: option.splits)

section \<open>Canonical data source\<close>

text \<open>
  Claim C1. The canonical data source is resolved in a fixed order: the host data if
  \<open>hostBufferIsPopulated\<close> holds; else the render buffer if a device buffer object exists;
  else a pending computation if \<open>dataGetsComputed\<close> holds; else an internal-consistency
  error. Consequently the canonical source after any call of \<open>markHostBufferUpdated\<close>,
  whether it returns or raises, is the host data, with or without a device buffer.
\<close>

theorem canonical_source_precedence:
  "(hostBufferIsPopulated b \<longrightarrow> currentCanonicalDataSource b = Inr HostData) \<and>
   (\<not> hostBufferIsPopulated b \<and> renderAttributeBuffer b \<noteq> None \<longrightarrow>
      currentCanonicalDataSource b = Inr RenderBuffer) \<and>
   (\<not> hostBufferIsPopulated b \<and> renderAttributeBuffer b = None \<and> dataGetsComputed b \<longrightarrow>
      currentCanonicalDataSource b = Inr NeedsCompute) \<and>
   (\<not> hostBufferIsPopulated b \<and> renderAttributeBuffer b = None \<and> \<not> dataGetsComputed b \<longrightarrow>
      currentCanonicalDataSource b = Inl (NoDataSource (name b))) \<and>
   currentCanonicalDataSource (buffer (stateOf (markHostBufferUpdated icf w))) = Inr HostData"
  by (simp add: currentCanonicalDataSource_def markHostBufferUpdated_fields)

theorem canonical_source_precedence_witness:
  "currentCanonicalDataSource (ManagedBuffer_host ''values'' 0 [1, 2, 3 :: int]) = Inr HostData \<and>
   currentCanonicalDataSource (buffer (exampleDeviceWorld False [] [1, 2, 3 :: int])) = Inr RenderBuffer \<and>
   currentCanonicalDataSource (ManagedBuffer_computed ''values'' 0 ([] :: int list)) = Inr NeedsCompute \<and>
   currentCanonicalDataSource ((ManagedBuffer_host ''values'' 0 ([] :: int list))
       \<lparr>hostBufferIsPopulated := False\<rparr>) = Inl (NoDataSource ''values'') \<and>
   currentCanonicalDataSource (buffer (stateOf (markHostBufferUpdated idleIndexCompute
       (exampleDeviceWorld False [4, 5, 6] [1, 2, 3 :: int])))) = Inr HostData"
proof -
  let ?host = "ManagedBuffer_host ''values'' 0 [1, 2, 3 :: int]"
  let ?device = "buffer (exampleDeviceWorld False [] [1, 2, 3 :: int])"
  let ?lazy = "ManagedBuffer_computed ''values'' 0 ([] :: int list)"
  let ?none = "(ManagedBuffer_host ''values'' 0 ([] :: int list))\<lparr>hostBufferIsPopulated := False\<rparr>"
  have h1: "hostBufferIsPopulated ?host"
    by (simp add: ManagedBuffer_host_def)
  have h2: "\<not> hostBufferIsPopulated ?device \<and> renderAttributeBuffer ?device \<noteq> None"
    by (simp add: exampleDeviceWorld_def ManagedBuffer_computed_def)
  have h3: "\<not> hostBufferIsPopulated ?lazy \<and> renderAttributeBuffer ?lazy = None \<and> dataGetsComputed ?lazy"
    by (simp add: ManagedBuffer_computed_def)
  have h4: "\<not> hostBufferIsPopulated ?none \<and> renderAttributeBuffer ?none = None \<and> \<not> dataGetsComputed ?none"
    by (simp add: ManagedBuffer_host_def)
  have n4: "name ?none = ''values''"
    by (simp add: ManagedBuffer_host_def)
  from h1 h2 h3 h4 n4
    canonical_source_precedence [of ?host idleIndexCompute "exampleDeviceWorld False [4, 5, 6] [1, 2, 3 :: int]"]
    canonical_source_precedence [of ?device idleIndexCompute "exampleDeviceWorld False [4, 5, 6] [1, 2, 3 :: int]"]
    canonical_source_precedence [of ?lazy idleIndexCompute "exampleDeviceWorld False [4, 5, 6] [1, 2, 3 :: int]"]
    canonical_source_precedence [of ?none idleIndexCompute "exampleDeviceWorld False [4, 5, 6] [1, 2, 3 :: int]"]
  show ?thesis by metis
qed

section \<open>Lazy computation\<close>

lemma populateAndNotify_fields:
  "hostBufferIsPopulated (buffer (stateOf (populateAndNotify fill icf w)))"
  "computeCalls (stateOf (populateAndNotify fill icf w)) = computeCalls w"
  "data (buffer (stateOf (populateAndNotify fill icf w))) = fill w"
  by (simp_all add: populateAndNotify_def markHostBufferUpdated_fields)

lemma ensureHostBufferPopulated_HostData:
  "hostBufferIsPopulated (buffer w) \<Longrightarrow> ensureHostBufferPopulated cf w = Return () w"
  by (simp add: ensureHostBufferPopulated_def currentCanonicalDataSource_def)

text \<open>
  Claim C3. Under the contract that \<open>computeFunc\<close> populates the host array and then calls
  \<open>markHostBufferUpdated\<close>, two consecutive calls of \<open>ensureHostBufferPopulated\<close> invoke
  \<open>computeFunc\<close> at most once, in every state and whatever the outcome of the calls. When
  the first call computes, the host buffer is populated afterwards and the second call
  returns at once, leaving the state as it is.
\<close>

theorem lazy_compute_idempotence:
  assumes contract: "cf = populateAndNotify fill icf"
  shows "computeCalls (stateOf (ensureHostBufferPopulated cf
            (stateOf (ensureHostBufferPopulated cf w)))) \<le> Suc (computeCalls w) \<and>
         (currentCanonicalDataSource (buffer w) = Inr NeedsCompute \<longrightarrow>
            computeCalls (stateOf (ensureHostBufferPopulated cf w)) = Suc (computeCalls w) \<and>
            hostBufferIsPopulated (buffer (stateOf (ensureHostBufferPopulated cf w))) \<and>
            ensureHostBufferPopulated cf (stateOf (ensureHostBufferPopulated cf w)) =
              Return () (stateOf (ensureHostBufferPopulated cf w)))"
proof (cases "currentCanonicalDataSource (buffer w)")
  case (Inl e)
  then show ?thesis by (simp add: ensureHostBufferPopulated_def)
next
  case (Inr src)
  show ?thesis
  proof (cases src)
    case HostData
    with Inr show ?thesis by (simp add: ensureHostBufferPopulated_def)
  next
    case NeedsCompute
    let ?w1 = "stateOf (ensureHostBufferPopulated cf w)"
    from Inr NeedsCompute
    have w1: "?w1 = stateOf (populateAndNotify fill icf (w\<lparr>computeCalls := Suc (computeCalls w)\<rparr>))"
      by (simp add: ensureHostBufferPopulated_def invokeComputeFunc_def contract)
    have pop: "hostBufferIsPopulated (buffer ?w1)"
      by (simp add: w1 populateAndNotify_fields)
    have calls: "computeCalls ?w1 = Suc (computeCalls w)"
      by (simp add: w1 populateAndNotify_fields)
    have second: "ensureHostBufferPopulated cf ?w1 = Return () ?w1"
      by (rule ensureHostBufferPopulated_HostData [OF pop])
    from pop calls second show ?thesis by simp
  next
    case RenderBuffer
    with Inr obtain a where a: "renderAttributeBuffer (buffer w) = Some a"
      and np: "\<not> hostBufferIsPopulated (buffer w)"
      by (auto simp: currentCanonicalDataSource_def split: if_splits)
    from a np show ?thesis
      by (simp add: ensureHostBufferPopulated_def currentCanonicalDataSource_def)
  qed
qed


theorem lazy_compute_idempotence_witness:
  "computeCalls (stateOf (ensureHostBufferPopulated (populateAndNotify (\<lambda>w. [5, 6, 7 :: int]) idleIndexCompute)
      (stateOf (ensureHostBufferPopulated (populateAndNotify (\<lambda>w. [5, 6, 7 :: int]) idleIndexCompute)
         (exampleWorld (ManagedBuffer_computed ''values'' 0 [])))))) = 1"
proof -
  let ?cf = "populateAndNotify (\<lambda>w. [5, 6, 7 :: int]) idleIndexCompute"
  let ?w = "exampleWorld (ManagedBuffer_computed ''values'' 0 ([] :: int list))"
  have src: "currentCanonicalDataSource (buffer ?w) = Inr NeedsCompute"
    by (simp add: exampleWorld_def ManagedBuffer_computed_def currentCanonicalDataSource_def)
  have zero: "computeCalls ?w = 0"
    by (simp add: exampleWorld_def)
  from lazy_compute_idempotence [of ?cf "\<lambda>w. [5, 6, 7 :: int]" idleIndexCompute ?w] src zero
  show ?thesis by simp
qed

lemma populateAndNotify_no_views:
  "existingIndexedViews (buffer w) = [] \<Longrightarrow> renderAttributeBuffer (buffer w) = None \<Longrightarrow>
   populateAndNotify fill icf w =
     Return () (w\<lparr>buffer := (buffer w)\<lparr>data := fill w, hostBufferIsPopulated := True,
        existingIndexedViews := []\<rparr>\<rparr>)"
  by (simp add: populateAndNotify_def markHostBufferUpdated_def updateIndexedViews_def
        removeDeletedIndexedViews_def Let_def)

section \<open>Element access and size\<close>

text \<open>
  Claim C2, as stated: in every state \<open>getValue(size())\<close> fails with an out-of-range
  error. It does not while the canonical source is a pending computation: \<open>size()\<close> is
  0 there, and \<open>getValue(0)\<close> runs the compute function and returns the first computed
  element.
\<close>

theorem getValue_at_size_counterexample:
  "valueOf (getValueAtSize exampleComputeFunc
      (exampleWorld (ManagedBuffer_computed ''values'' 0 []))) = Some 5"
  by (simp add: getValueAtSize_def size_buffer_def getValue_def currentCanonicalDataSource_def
        exampleWorld_def ManagedBuffer_computed_def invokeComputeFunc_def exampleComputeFunc_def
        exampleFill_def populateAndNotify_no_views vector_size_def)

text \<open>
  Claim C2, amended. Whenever the canonical source is the host data or the render buffer,
  \<open>getValue(size())\<close> raises the out-of-range error for exactly the index \<open>size()\<close> and
  leaves the state as it is: no element is returned and the index does not wrap. While the
  canonical source is a pending computation, \<open>size()\<close> is 0 and \<open>getValue(0)\<close> first runs
  the compute function and then checks the index against the computed array: a raise of
  the compute function goes on to the caller, an empty computed array gives the
  out-of-range error for the index 0, and otherwise the first computed element is
  returned.
\<close>

theorem getValue_at_size_out_of_range:
  "(currentCanonicalDataSource (buffer w) = Inr HostData \<or>
    currentCanonicalDataSource (buffer w) = Inr RenderBuffer \<longrightarrow>
      (\<exists>n. size_buffer w = Return n w \<and>
           getValueAtSize cf w = Throw (OutOfBoundsAccess (name (buffer w)) n) w)) \<and>
   (currentCanonicalDataSource (buffer w) = Inr NeedsCompute \<longrightarrow>
      size_buffer w = Return 0 w \<and>
      (cf (w\<lparr>computeCalls := Suc (computeCalls w)\<rparr>) = Throw e v \<longrightarrow>
         getValueAtSize cf w = Throw e v) \<and>
      (cf (w\<lparr>computeCalls := Suc (computeCalls w)\<rparr>) = Return u v \<and> data (buffer v) = [] \<longrightarrow>
         getValueAtSize cf w = Throw (OutOfBoundsAccess (name (buffer v)) 0) v) \<and>
      (cf (w\<lparr>computeCalls := Suc (computeCalls w)\<rparr>) = Return u v \<and>
       data (buffer v) \<noteq> [] \<and> length (data (buffer v)) < 2 ^ 64 \<longrightarrow>
         getValueAtSize cf w = Return (hd (data (buffer v))) v))"
proof -
  have stored: "getValueAtSize cf w = Throw (OutOfBoundsAccess (name (buffer w)) n) w"
    if "size_buffer w = Return n w"
      "currentCanonicalDataSource (buffer w) = Inr HostData \<or>
       currentCanonicalDataSource (buffer w) = Inr RenderBuffer" for n
    using that
    by (auto simp: getValueAtSize_def size_buffer_def getValue_def currentCanonicalDataSource_def
          split: if_splits)
  have sized: "\<exists>n. size_buffer w = Return n w"
    if "currentCanonicalDataSource (buffer w) = Inr HostData \<or>
        currentCanonicalDataSource (buffer w) = Inr RenderBuffer"
    using that
    by (auto simp: size_buffer_def currentCanonicalDataSource_def split: if_splits)
  have pending: "size_buffer w = Return 0 w"
      "getValueAtSize cf w =
         andThen (cf (w\<lparr>computeCalls := Suc (computeCalls w)\<rparr>)) (\<lambda>_ w1.
            (if vector_size (data (buffer w1)) \<le> 0
             then Throw (OutOfBoundsAccess (name (buffer w1)) 0) w1
             else Return (data (buffer w1) ! unat (0 :: size_t)) w1))"
    if "currentCanonicalDataSource (buffer w) = Inr NeedsCompute"
    using that
    by (simp_all add: getValueAtSize_def size_buffer_def getValue_def invokeComputeFunc_def)
  have nonzero: "vector_size xs \<noteq> 0" if "xs \<noteq> []" "length xs < 2 ^ 64" for xs :: "'a list"
  proof
    assume "vector_size xs = 0"
    then have "unat (of_nat (length xs) :: size_t) = 0"
      by (simp add: vector_size_def)
    with that(2) have "length xs = 0"
      by (simp add: unat_of_nat)
    with that(1) show False by simp
  qed
  show ?thesis
  proof (intro conjI impI)
    assume a: "currentCanonicalDataSource (buffer w) = Inr HostData \<or>
      currentCanonicalDataSource (buffer w) = Inr RenderBuffer"
    from sized [OF a] obtain n where n: "size_buffer w = Return n w" ..
    with stored [OF n a]
    show "\<exists>n. size_buffer w = Return n w \<and>
           getValueAtSize cf w = Throw (OutOfBoundsAccess (name (buffer w)) n) w"
      by blast
  next
    assume "currentCanonicalDataSource (buffer w) = Inr NeedsCompute"
    then show "size_buffer w = Return 0 w" by (rule pending(1))
  next
    assume "currentCanonicalDataSource (buffer w) = Inr NeedsCompute"
      "cf (w\<lparr>computeCalls := Suc (computeCalls w)\<rparr>) = Throw e v"
    then show "getValueAtSize cf w = Throw e v" by (simp add: pending(2))
  next
    assume "currentCanonicalDataSource (buffer w) = Inr NeedsCompute"
      "cf (w\<lparr>computeCalls := Suc (computeCalls w)\<rparr>) = Return u v \<and> data (buffer v) = []"
    then show "getValueAtSize cf w = Throw (OutOfBoundsAccess (name (buffer v)) 0) v"
      by (simp add: pending(2) vector_size_def)
  next
    assume src: "currentCanonicalDataSource (buffer w) = Inr NeedsCompute"
      and r: "cf (w\<lparr>computeCalls := Suc (computeCalls w)\<rparr>) = Return u v \<and>
        data (buffer v) \<noteq> [] \<and> length (data (buffer v)) < 2 ^ 64"
    from r nonzero have "vector_size (data (buffer v)) \<noteq> 0" by blast
    moreover from r have "data (buffer v) ! 0 = hd (data (buffer v))"
      by (simp add: hd_conv_nth)
    ultimately show "getValueAtSize cf w = Return (hd (data (buffer v))) v"
      using r by (simp add: pending(2) [OF src])
  qed
qed


theorem getValue_at_size_out_of_range_witness:
  "getValueAtSize exampleComputeFunc (exampleWorld (ManagedBuffer_host ''values'' 0 [1, 2, 3])) =
     Throw (OutOfBoundsAccess ''values'' 3) (exampleWorld (ManagedBuffer_host ''values'' 0 [1, 2, 3])) \<and>
   getValueAtSize exampleComputeFunc (exampleDeviceWorld False [] [1, 2, 3]) =
     Throw (OutOfBoundsAccess ''values'' 3) (exampleDeviceWorld False [] [1, 2, 3]) \<and>
   size_buffer (exampleWorld (ManagedBuffer_computed ''values'' 0 ([] :: int list))) =
     Return 0 (exampleWorld (ManagedBuffer_computed ''values'' 0 [])) \<and>
   getValueAtSize exampleComputeFunc (exampleWorld (ManagedBuffer_computed ''values'' 0 [])) =
     Return 5 (stateOf (exampleComputeFunc
       ((exampleWorld (ManagedBuffer_computed ''values'' 0 []))\<lparr>computeCalls := 1\<rparr>))) \<and>
   getValueAtSize exampleEmptyComputeFunc (exampleWorld (ManagedBuffer_computed ''values'' 0 [])) =
     Throw (OutOfBoundsAccess ''values'' 0) (stateOf (exampleEmptyComputeFunc
       ((exampleWorld (ManagedBuffer_computed ''values'' 0 []))\<lparr>computeCalls := 1\<rparr>)))"
proof -
  let ?h = "exampleWorld (ManagedBuffer_host ''values'' 0 [1, 2, 3 :: int])"
  let ?d = "exampleDeviceWorld False [] [1, 2, 3 :: int]"
  let ?c = "exampleWorld (ManagedBuffer_computed ''values'' 0 ([] :: int list))"
  let ?c1 = "?c\<lparr>computeCalls := Suc (computeCalls ?c)\<rparr>"
  let ?full = "?c1\<lparr>buffer := (buffer ?c1)\<lparr>data := [5, 6, 7], hostBufferIsPopulated := True,
      existingIndexedViews := []\<rparr>\<rparr>"
  let ?empty = "?c1\<lparr>buffer := (buffer ?c1)\<lparr>data := [], hostBufferIsPopulated := True,
      existingIndexedViews := []\<rparr>\<rparr>"
  have sh: "currentCanonicalDataSource (buffer ?h) = Inr HostData"
    by (simp add: currentCanonicalDataSource_def exampleWorld_def ManagedBuffer_host_def)
  have sd: "currentCanonicalDataSource (buffer ?d) = Inr RenderBuffer"
    by (simp add: currentCanonicalDataSource_def exampleDeviceWorld_def ManagedBuffer_computed_def)
  have sc: "currentCanonicalDataSource (buffer ?c) = Inr NeedsCompute"
    by (simp add: currentCanonicalDataSource_def exampleWorld_def ManagedBuffer_computed_def)
  have nh: "size_buffer ?h = Return 3 ?h"
    using sh by (simp add: size_buffer_def vector_size_def exampleWorld_def ManagedBuffer_host_def)
  have nd: "size_buffer ?d = Return 3 ?d"
    using sd by (simp add: size_buffer_def getDataSize_def exampleDeviceWorld_def
          ManagedBuffer_computed_def)
  have mh: "name (buffer ?h) = ''values''"
    by (simp add: exampleWorld_def ManagedBuffer_host_def)
  have md: "name (buffer ?d) = ''values''"
    by (simp add: exampleDeviceWorld_def ManagedBuffer_computed_def)
  have one: "Suc (computeCalls ?c) = 1"
    by (simp add: exampleWorld_def)
  have full: "exampleComputeFunc ?c1 = Return () ?full"
    by (simp add: exampleComputeFunc_def exampleFill_def populateAndNotify_no_views
          exampleWorld_def ManagedBuffer_computed_def)
  have empty: "exampleEmptyComputeFunc ?c1 = Return () ?empty"
    by (simp add: exampleEmptyComputeFunc_def exampleEmptyFill_def populateAndNotify_no_views
          exampleWorld_def ManagedBuffer_computed_def)
  have dfull: "data (buffer ?full) \<noteq> [] \<and> length (data (buffer ?full)) < 2 ^ 64"
    "hd (data (buffer ?full)) = 5"
    by simp_all
  have dempty: "data (buffer ?empty) = []" "name (buffer ?empty) = ''values''"
    by (simp_all add: exampleWorld_def ManagedBuffer_computed_def)
  from getValue_at_size_out_of_range [of ?h exampleComputeFunc] sh nh mh
  have 1: "getValueAtSize exampleComputeFunc ?h = Throw (OutOfBoundsAccess ''values'' 3) ?h"
    by auto
  from getValue_at_size_out_of_range [of ?d exampleComputeFunc] sd nd md
  have 2: "getValueAtSize exampleComputeFunc ?d = Throw (OutOfBoundsAccess ''values'' 3) ?d"
    by auto
  from getValue_at_size_out_of_range [where w = ?c and cf = exampleComputeFunc and u = "()" and v = ?full] sc full dfull
  have 3: "size_buffer ?c = Return 0 ?c" "getValueAtSize exampleComputeFunc ?c = Return 5 ?full"
    by auto
  from getValue_at_size_out_of_range [where w = ?c and cf = exampleEmptyComputeFunc and u = "()" and v = ?empty] sc empty dempty
  have 4: "getValueAtSize exampleEmptyComputeFunc ?c = Throw (OutOfBoundsAccess ''values'' 0) ?empty"
    by auto
  from full empty have st: "stateOf (exampleComputeFunc ?c1) = ?full"
    "stateOf (exampleEmptyComputeFunc ?c1) = ?empty"
    by simp_all
  from 1 2 3 4 show ?thesis
    unfolding one [symmetric] st by blast
qed


text \<open>
  Claim C8. \<open>size()\<close> is 0 whenever the canonical source is a pending computation, the
  length of the host array when the source is the host data, and the element count of the
  device buffer when the source is the render buffer. For a buffer constructed over an
  empty host array with a compute function that fills it with \<open>[5, 6, 7]\<close> and notifies:
  before any access the source is the pending computation and \<open>size()\<close> is 0; then
  \<open>ensureHostBufferPopulated\<close> returns, and after it \<open>size()\<close> is 3 and \<open>getValue(0)\<close>
  is 5.
\<close>

theorem size_of_lazily_computed_buffer:
  "(currentCanonicalDataSource (buffer w) = Inr NeedsCompute \<longrightarrow> size_buffer w = Return 0 w) \<and>
   (currentCanonicalDataSource (buffer w) = Inr HostData \<longrightarrow>
      size_buffer w = Return (of_nat (length (data (buffer w)))) w) \<and>
   (currentCanonicalDataSource (buffer w) = Inr RenderBuffer \<longrightarrow>
      (\<exists>a. renderAttributeBuffer (buffer w) = Some a \<and>
           size_buffer w = Return (of_nat (length (attributeData w a))) w)) \<and>
   (buffer w = ManagedBuffer_computed nm uid [] \<and> cf = populateAndNotify (\<lambda>w. [5, 6, 7]) icf \<longrightarrow>
      currentCanonicalDataSource (buffer w) = Inr NeedsCompute \<and>
      size_buffer w = Return 0 w \<and>
      returns (ensureHostBufferPopulated cf w) \<and>
      size_buffer (stateOf (ensureHostBufferPopulated cf w)) =
        Return 3 (stateOf (ensureHostBufferPopulated cf w)) \<and>
      getValue cf 0 (stateOf (ensureHostBufferPopulated cf w)) =
        Return 5 (stateOf (ensureHostBufferPopulated cf w)))"
proof -
  have general: "currentCanonicalDataSource (buffer w) = Inr NeedsCompute \<longrightarrow> size_buffer w = Return 0 w"
    "currentCanonicalDataSource (buffer w) = Inr HostData \<longrightarrow>
      size_buffer w = Return (of_nat (length (data (buffer w)))) w"
    "currentCanonicalDataSource (buffer w) = Inr RenderBuffer \<longrightarrow>
      (\<exists>a. renderAttributeBuffer (buffer w) = Some a \<and>
           size_buffer w = Return (of_nat (length (attributeData w a))) w)"
    by (auto simp: size_buffer_def vector_size_def getDataSize_def currentCanonicalDataSource_def
          split: if_splits)
  have scenario: "currentCanonicalDataSource (buffer w) = Inr NeedsCompute \<and>
      size_buffer w = Return 0 w \<and>
      returns (ensureHostBufferPopulated cf w) \<and>
      size_buffer (stateOf (ensureHostBufferPopulated cf w)) =
        Return 3 (stateOf (ensureHostBufferPopulated cf w)) \<and>
      getValue cf 0 (stateOf (ensureHostBufferPopulated cf w)) =
        Return 5 (stateOf (ensureHostBufferPopulated cf w))"
    if b: "buffer w = ManagedBuffer_computed nm uid []" and c: "cf = populateAndNotify (\<lambda>w. [5, 6, 7]) icf"
  proof -
    have src: "currentCanonicalDataSource (buffer w) = Inr NeedsCompute"
      by (simp add: b ManagedBuffer_computed_def currentCanonicalDataSource_def)
    let ?w1 = "w\<lparr>computeCalls := Suc (computeCalls w)\<rparr>"
    let ?w2 = "?w1\<lparr>buffer := (buffer ?w1)\<lparr>data := [5, 6, 7], hostBufferIsPopulated := True,
        existingIndexedViews := []\<rparr>\<rparr>"
    have e: "ensureHostBufferPopulated cf w = Return () ?w2"
      using src
      by (simp add: ensureHostBufferPopulated_def invokeComputeFunc_def c
            populateAndNotify_no_views b ManagedBuffer_computed_def)
    show ?thesis
      using src
      by (simp add: e size_buffer_def getValue_def vector_size_def currentCanonicalDataSource_def)
  qed
  from general scenario show ?thesis by blast
qed

theorem size_of_lazily_computed_buffer_witness:
  "size_buffer (exampleWorld (ManagedBuffer_computed ''values'' 0 ([] :: int list))) =
     Return 0 (exampleWorld (ManagedBuffer_computed ''values'' 0 ([] :: int list))) \<and>
   size_buffer (stateOf (ensureHostBufferPopulated exampleComputeFunc
       (exampleWorld (ManagedBuffer_computed ''values'' 0 ([] :: int list))))) =
     Return 3 (stateOf (ensureHostBufferPopulated exampleComputeFunc
       (exampleWorld (ManagedBuffer_computed ''values'' 0 ([] :: int list))))) \<and>
   getValue exampleComputeFunc 0 (stateOf (ensureHostBufferPopulated exampleComputeFunc
       (exampleWorld (ManagedBuffer_computed ''values'' 0 ([] :: int list))))) =
     Return 5 (stateOf (ensureHostBufferPopulated exampleComputeFunc
       (exampleWorld (ManagedBuffer_computed ''values'' 0 ([] :: int list))))) \<and>
   size_buffer (exampleWorld (ManagedBuffer_host ''values'' 0 [1, 2, 3 :: int])) =
     Return 3 (exampleWorld (ManagedBuffer_host ''values'' 0 [1, 2, 3 :: int])) \<and>
   size_buffer (exampleDeviceWorld False [] [1, 2, 3 :: int]) =
     Return 3 (exampleDeviceWorld False [] [1, 2, 3 :: int])"
proof -
  let ?c = "exampleWorld (ManagedBuffer_computed ''values'' 0 ([] :: int list))"
  let ?h = "exampleWorld (ManagedBuffer_host ''values'' 0 [1, 2, 3 :: int])"
  let ?d = "exampleDeviceWorld False [] [1, 2, 3 :: int]"
  have b: "buffer ?c = ManagedBuffer_computed ''values'' 0 []"
    by (simp add: exampleWorld_def)
  have c: "exampleComputeFunc = populateAndNotify (\<lambda>w. [5, 6, 7]) idleIndexCompute"
    by (simp add: exampleComputeFunc_def exampleFill_def [abs_def])
  have sh: "currentCanonicalDataSource (buffer ?h) = Inr HostData"
    by (simp add: currentCanonicalDataSource_def exampleWorld_def ManagedBuffer_host_def)
  have lh: "length (data (buffer ?h)) = 3"
    by (simp add: exampleWorld_def ManagedBuffer_host_def)
  have sd: "currentCanonicalDataSource (buffer ?d) = Inr RenderBuffer"
    by (simp add: currentCanonicalDataSource_def exampleDeviceWorld_def ManagedBuffer_computed_def)
  have ld: "renderAttributeBuffer (buffer ?d) = Some 0" "length (attributeData ?d 0) = 3"
    by (simp_all add: exampleDeviceWorld_def ManagedBuffer_computed_def)
  from size_of_lazily_computed_buffer [of ?c "''values''" 0 exampleComputeFunc idleIndexCompute] b c
  have "size_buffer ?c = Return 0 ?c \<and>
      size_buffer (stateOf (ensureHostBufferPopulated exampleComputeFunc ?c)) =
        Return 3 (stateOf (ensureHostBufferPopulated exampleComputeFunc ?c)) \<and>
      getValue exampleComputeFunc 0 (stateOf (ensureHostBufferPopulated exampleComputeFunc ?c)) =
        Return 5 (stateOf (ensureHostBufferPopulated exampleComputeFunc ?c))"
    by blast
  moreover
  from size_of_lazily_computed_buffer [of ?h "''values''" 0 exampleComputeFunc idleIndexCompute] sh lh
  have "size_buffer ?h = Return 3 ?h" by simp
  moreover
  from size_of_lazily_computed_buffer [of ?d "''values''" 0 exampleComputeFunc idleIndexCompute] sd ld
  have "size_buffer ?d = Return 3 ?d" by auto
  ultimately show ?thesis by simp
qed

section \<open>What each operation leaves alone\<close>

lemma size_buffer_state [simp]: "stateOf (size_buffer w) = w"
  by (simp add: size_buffer_def split: sum.splits CanonicalDataSource.splits option.splits)

lemma ensureHostBufferPopulated_no_compute:
  assumes "currentCanonicalDataSource (buffer w) \<noteq> Inr NeedsCompute"
  shows "renderAttributeBuffer (buffer (stateOf (ensureHostBufferPopulated cf w))) =
           renderAttributeBuffer (buffer w)"
    and "hostBufferIsPopulated (buffer (stateOf (ensureHostBufferPopulated cf w))) =
           hostBufferIsPopulated (buffer w)"
    and "existingIndexedViews (buffer (stateOf (ensureHostBufferPopulated cf w))) =
           existingIndexedViews (buffer w)"
    and "computeCalls (stateOf (ensureHostBufferPopulated cf w)) = computeCalls w"
    and "alive (stateOf (ensureHostBufferPopulated cf w)) = alive w"
    and "idx (stateOf (ensureHostBufferPopulated cf w)) = idx w"
  using assms
  by (simp_all add: ensureHostBufferPopulated_def
        split: sum.splits CanonicalDataSource.splits option.splits)

lemma getValue_no_compute:
  "currentCanonicalDataSource (buffer w) \<noteq> Inr NeedsCompute \<Longrightarrow> stateOf (getValue cf ind w) = w"
  by (simp add: getValue_def split: sum.splits CanonicalDataSource.splits option.splits)

lemma getPopulatedHostBufferRef_state:
  "stateOf (getPopulatedHostBufferRef cf w) = stateOf (ensureHostBufferPopulated cf w)"
  by (cases "ensureHostBufferPopulated cf w") (simp_all add: getPopulatedHostBufferRef_def)

lemma markRenderAttributeBufferUpdated_state:
  "sameExceptViews (invalidateHostBuffer w) (stateOf (markRenderAttributeBufferUpdated icf w)) \<or>
   sameExceptViews (requestRedraw (invalidateHostBuffer w)) (stateOf (markRenderAttributeBufferUpdated icf w))"
proof (cases "updateIndexedViews icf (invalidateHostBuffer w)")
  case (Return u w1)
  with updateIndexedViews_frame [of "invalidateHostBuffer w" icf]
  have "sameExceptViews (invalidateHostBuffer w) w1" by simp
  then have "sameExceptViews (requestRedraw (invalidateHostBuffer w)) (requestRedraw w1)"
    by (simp add: sameExceptViews_def requestRedraw_def)
  with Return show ?thesis by (simp add: markRenderAttributeBufferUpdated_def)
next
  case (Throw e w1)
  with updateIndexedViews_frame [of "invalidateHostBuffer w" icf]
  show ?thesis by (simp add: markRenderAttributeBufferUpdated_def)
qed

lemma markRenderAttributeBufferUpdated_fields:
  "renderAttributeBuffer (buffer (stateOf (markRenderAttributeBufferUpdated icf w))) =
     renderAttributeBuffer (buffer w)"
  "\<not> hostBufferIsPopulated (buffer (stateOf (markRenderAttributeBufferUpdated icf w)))"
  "data (buffer (stateOf (markRenderAttributeBufferUpdated icf w))) = []"
  "name (buffer (stateOf (markRenderAttributeBufferUpdated icf w))) = name (buffer w)"
  "uniqueID (buffer (stateOf (markRenderAttributeBufferUpdated icf w))) = uniqueID (buffer w)"
  "dataGetsComputed (buffer (stateOf (markRenderAttributeBufferUpdated icf w))) = dataGetsComputed (buffer w)"
  "alive (stateOf (markRenderAttributeBufferUpdated icf w)) = alive w"
  "nextAttributeBuffer (stateOf (markRenderAttributeBufferUpdated icf w)) = nextAttributeBuffer w"
  "computeCalls (stateOf (markRenderAttributeBufferUpdated icf w)) = computeCalls w"
  using markRenderAttributeBufferUpdated_state [of w icf]
  by (auto simp: sameExceptViews_def invalidateHostBuffer_def requestRedraw_def)

lemma getIndexedRenderAttributeBuffer_no_compute:
  assumes "currentCanonicalDataSource (buffer w) \<noteq> Inr NeedsCompute"
  shows "renderAttributeBuffer (buffer (stateOf (getIndexedRenderAttributeBuffer cf icf p w))) =
           renderAttributeBuffer (buffer w)"
    and "hostBufferIsPopulated (buffer (stateOf (getIndexedRenderAttributeBuffer cf icf p w))) =
           hostBufferIsPopulated (buffer w)"
proof -
  let ?w0 = "removeDeletedIndexedViews w"
  let ?w1 = "stateOf (ensureHostBufferPopulated cf ?w0)"
  have src0: "currentCanonicalDataSource (buffer ?w0) \<noteq> Inr NeedsCompute"
    using assms by (auto simp: removeDeletedIndexedViews_def currentCanonicalDataSource_def split: if_splits)
  have f0: "renderAttributeBuffer (buffer ?w0) = renderAttributeBuffer (buffer w)"
    "hostBufferIsPopulated (buffer ?w0) = hostBufferIsPopulated (buffer w)"
    by (simp_all add: removeDeletedIndexedViews_def)
  note f1 = ensureHostBufferPopulated_no_compute(1,2) [OF src0, of cf]
  have tail: "renderAttributeBuffer (buffer (stateOf r)) = renderAttributeBuffer (buffer w1) \<and>
      hostBufferIsPopulated (buffer (stateOf r)) = hostBufferIsPopulated (buffer w1)"
    if "r = (case generateAttributeBuffer w1 of
               (newBuffer, w2) \<Rightarrow>
                 (case ensureIndices icf p w2 of
                    Throw e w3 \<Rightarrow> Throw e (release newBuffer w3)
                  | Return u w3 \<Rightarrow>
                      (case gather (data (buffer w3)) (data (indexBuffers (idx w3) p)) of
                         Inl e \<Rightarrow> Throw e (release newBuffer w3)
                       | Inr expandData \<Rightarrow>
                           (let w4 = setData newBuffer expandData w3
                            in Return newBuffer
                                 (w4\<lparr>buffer := (buffer w4)\<lparr>existingIndexedViews :=
                                    existingIndexedViews (buffer w4) @
                                      [\<lparr>indices = p, viewBuffer = newBuffer,
                                        deviceUpdateProgram = None\<rparr>]\<rparr>\<rparr>)))))"
    for r :: "(addr, 'a world) result" and w1
    using that
    by (cases "indices_ensureHostBufferPopulated icf p (idx w1)")
       (auto simp: generateAttributeBuffer_def ensureIndices_def release_def setData_def Let_def
          split: sum.splits)
  show "renderAttributeBuffer (buffer (stateOf (getIndexedRenderAttributeBuffer cf icf p w))) =
           renderAttributeBuffer (buffer w)"
    using f0 f1 tail [OF refl]
    by (cases "ensureHostBufferPopulated cf ?w0")
       (auto simp: getIndexedRenderAttributeBuffer_def Let_def split: option.splits)
  show "hostBufferIsPopulated (buffer (stateOf (getIndexedRenderAttributeBuffer cf icf p w))) =
           hostBufferIsPopulated (buffer w)"
    using f0 f1 tail [OF refl]
    by (cases "ensureHostBufferPopulated cf ?w0")
       (auto simp: getIndexedRenderAttributeBuffer_def Let_def split: option.splits)
qed


lemma getRenderAttributeBuffer_existing:
  "renderAttributeBuffer (buffer w) = Some a \<Longrightarrow> getRenderAttributeBuffer cf w = Return a w"
  by (simp add: getRenderAttributeBuffer_def)

lemma invalidateHostBuffer_fields [simp]:
  "renderAttributeBuffer (buffer (invalidateHostBuffer w)) = renderAttributeBuffer (buffer w)"
  "\<not> hostBufferIsPopulated (buffer (invalidateHostBuffer w))"
  "data (buffer (invalidateHostBuffer w)) = []"
  "dataGetsComputed (buffer (invalidateHostBuffer w)) = dataGetsComputed (buffer w)"
  "existingIndexedViews (buffer (invalidateHostBuffer w)) = existingIndexedViews (buffer w)"
  by (simp_all add: invalidateHostBuffer_def)

lemma recomputeIfPopulated_handle:
  assumes "\<forall>v. renderAttributeBuffer (buffer (stateOf (cf v))) = renderAttributeBuffer (buffer v)"
  shows "renderAttributeBuffer (buffer (stateOf (recomputeIfPopulated cf icf w))) =
           renderAttributeBuffer (buffer w)"
proof -
  let ?v = "(invalidateHostBuffer w)\<lparr>computeCalls := Suc (computeCalls (invalidateHostBuffer w))\<rparr>"
  have v: "renderAttributeBuffer (buffer ?v) = renderAttributeBuffer (buffer w)"
    by (simp add: invalidateHostBuffer_def)
  from assms have c: "renderAttributeBuffer (buffer (stateOf (cf ?v))) = renderAttributeBuffer (buffer ?v)"
    by blast
  show ?thesis
    using c v
    by (cases "cf ?v")
       (auto simp: recomputeIfPopulated_def invokeComputeFunc_def markHostBufferUpdated_fields
          split: sum.splits)
qed

lemma updateIndexedViews_loop_host_contents:
  "hostBufferIsPopulated (buffer w) \<Longrightarrow> list_all (\<lambda>view. viewBuffer view \<noteq> a) vs \<Longrightarrow>
   attributeData (stateOf (updateIndexedViews_loop icf i vs w)) a = attributeData w a"
proof (induction vs arbitrary: i w)
  case Nil
  show ?case by simp
next
  case (Cons view rest)
  from Cons.prems have ne: "viewBuffer view \<noteq> a" and rest: "list_all (\<lambda>view. viewBuffer view \<noteq> a) rest"
    by simp_all
  show ?case
  proof (cases "alive w (viewBuffer view)")
    case False
    with Cons.IH [OF Cons.prems(1) rest] show ?thesis by simp
  next
    case True
    have one: "attributeData (stateOf (updateIndexedView icf i view w)) a = attributeData w a"
      using Cons.prems(1) ne
      by (cases "indices_ensureHostBufferPopulated icf (indices view) (idx w)")
         (auto simp: updateIndexedView_def currentCanonicalDataSource_def ensureIndices_def
            setData_def split: sum.splits)
    have pop: "hostBufferIsPopulated (buffer (stateOf (updateIndexedView icf i view w)))"
      using sameExceptViews_fields(5) [OF updateIndexedView_frame [of w icf i view]] Cons.prems(1)
      by simp
    show ?thesis
    proof (cases "updateIndexedView icf i view w")
      case (Return u w1)
      with one pop True Cons.IH [of w1 "Suc i", OF _ rest] show ?thesis by simp
    next
      case (Throw e w1)
      with one True show ?thesis by simp
    qed
  qed
qed

lemma markHostBufferUpdated_contents:
  assumes "renderAttributeBuffer (buffer w) = Some a"
      and "list_all (\<lambda>view. viewBuffer view \<noteq> a) (existingIndexedViews (buffer w))"
  shows "attributeData (stateOf (markHostBufferUpdated icf w)) a = data (buffer w)"
proof -
  let ?w2 = "requestRedraw (setData a (data (buffer w))
      (w\<lparr>buffer := (buffer w)\<lparr>hostBufferIsPopulated := True\<rparr>\<rparr>))"
  let ?w3 = "removeDeletedIndexedViews ?w2"
  have m: "markHostBufferUpdated icf w =
      updateIndexedViews_loop icf 0 (existingIndexedViews (buffer ?w3)) ?w3"
    using assms(1) by (simp add: markHostBufferUpdated_def updateIndexedViews_def Let_def)
  have pop: "hostBufferIsPopulated (buffer ?w3)"
    by (simp add: removeDeletedIndexedViews_def requestRedraw_def setData_def)
  have vs: "list_all (\<lambda>view. viewBuffer view \<noteq> a) (existingIndexedViews (buffer ?w3))"
    using assms(2)
    by (simp add: removeDeletedIndexedViews_def requestRedraw_def setData_def list_all_iff)
  have "attributeData ?w3 a = data (buffer w)"
    by (simp add: removeDeletedIndexedViews_def requestRedraw_def setData_def)
  with updateIndexedViews_loop_host_contents [OF pop vs, of icf 0] show ?thesis
    by (simp add: m)
qed

section \<open>Identity of the render buffer\<close>

lemma perform_keeps_render_buffer:
  assumes created: "renderAttributeBuffer (buffer w) = Some a"
      and callback: "\<forall>v. renderAttributeBuffer (buffer (stateOf (cf v))) = renderAttributeBuffer (buffer v)"
  shows "renderAttributeBuffer (buffer (perform cf icf op w)) = Some a"
proof -
  from created have src: "currentCanonicalDataSource (buffer w) \<noteq> Inr NeedsCompute"
    by (simp add: currentCanonicalDataSource_def)
  have "renderAttributeBuffer (buffer (perform cf icf op w)) = renderAttributeBuffer (buffer w)"
  proof (cases op)
    case EnsureHostBufferPopulated
    then show ?thesis by (simp add: ensureHostBufferPopulated_no_compute [OF src])
  next
    case GetPopulatedHostBufferRef
    then show ?thesis
      by (simp add: getPopulatedHostBufferRef_state ensureHostBufferPopulated_no_compute [OF src])
  next
    case MarkHostBufferUpdated
    then show ?thesis by (simp add: markHostBufferUpdated_fields)
  next
    case (GetValue ind)
    then show ?thesis by (simp add: getValue_no_compute [OF src])
  next
    case Size
    then show ?thesis by simp
  next
    case RecomputeIfPopulated
    then show ?thesis by (simp add: recomputeIfPopulated_handle [OF callback])
  next
    case GetRenderAttributeBuffer
    then show ?thesis by (simp add: getRenderAttributeBuffer_existing [OF created])
  next
    case MarkRenderAttributeBufferUpdated
    then show ?thesis by (simp add: markRenderAttributeBufferUpdated_fields)
  next
    case (GetIndexedRenderAttributeBuffer p)
    then show ?thesis by (simp add: getIndexedRenderAttributeBuffer_no_compute [OF src])
  next
    case UpdateIndexedViews
    then show ?thesis by (simp add: sameExceptViews_fields [OF updateIndexedViews_frame])
  next
    case RemoveDeletedIndexedViews
    then show ?thesis by (simp add: removeDeletedIndexedViews_def)
  next
    case InvalidateHostBuffer
    then show ?thesis by simp
  next
    case (WriteHostData xs)
    then show ?thesis by (simp add: writeHostData_def)
  qed
  with created show ?thesis by simp
qed

lemma performAll_keeps_render_buffer:
  assumes callback: "\<forall>v. renderAttributeBuffer (buffer (stateOf (cf v))) = renderAttributeBuffer (buffer v)"
  shows "renderAttributeBuffer (buffer w) = Some a \<Longrightarrow>
         renderAttributeBuffer (buffer (performAll cf icf ops w)) = Some a"
proof (induction ops arbitrary: w)
  case Nil
  then show ?case by simp
next
  case (Cons op ops)
  from perform_keeps_render_buffer [OF Cons.prems callback, of icf op]
  show ?case by (simp add: Cons.IH)
qed

lemma populateAndNotify_keeps_render_buffer:
  "renderAttributeBuffer (buffer (stateOf (populateAndNotify fill icf v))) =
     renderAttributeBuffer (buffer v)"
  by (simp add: populateAndNotify_def markHostBufferUpdated_fields)

text \<open>
  Claim C9. Once the device buffer \<open>renderAttributeBuffer\<close> exists, no operation of the
  buffer replaces it by another object: after any sequence of operations, whether they
  return or raise, the handle is the same and \<open>getRenderAttributeBuffer\<close> returns that
  object without touching the state. The compute function enters as a callback that
  cannot assign the member. A write through \<open>markHostBufferUpdated\<close> changes the contents
  of the object: unless a cached view shares the object, it holds the host array
  afterwards.
\<close>

theorem render_buffer_never_replaced:
  assumes created: "renderAttributeBuffer (buffer w) = Some a"
      and callback: "\<forall>v. renderAttributeBuffer (buffer (stateOf (cf v))) = renderAttributeBuffer (buffer v)"
  shows "renderAttributeBuffer (buffer (performAll cf icf ops w)) = Some a \<and>
         getRenderAttributeBuffer cf (performAll cf icf ops w) =
           Return a (performAll cf icf ops w) \<and>
         (list_all (\<lambda>view. viewBuffer view \<noteq> a) (existingIndexedViews (buffer w)) \<longrightarrow>
            attributeData (stateOf (markHostBufferUpdated icf w)) a = data (buffer w))"
proof -
  note same = performAll_keeps_render_buffer [OF callback created, of icf ops]
  from same getRenderAttributeBuffer_existing [OF same] markHostBufferUpdated_contents [OF created]
  show ?thesis by blast
qed

theorem render_buffer_never_replaced_witness:
  "renderAttributeBuffer (buffer (performAll exampleComputeFunc idleIndexCompute
      [WriteHostData [7, 8, 9], MarkHostBufferUpdated, RecomputeIfPopulated,
       MarkRenderAttributeBufferUpdated, EnsureHostBufferPopulated]
      (exampleDeviceWorld True [4, 5, 6] [1, 2, 3]))) = Some 0 \<and>
   attributeData (stateOf (markHostBufferUpdated idleIndexCompute
      (exampleDeviceWorld True [4, 5, 6] [1, 2, 3 :: int]))) 0 = [4, 5, 6]"
proof -
  let ?w = "exampleDeviceWorld True [4, 5, 6] [1, 2, 3 :: int]"
  have created: "renderAttributeBuffer (buffer ?w) = Some 0"
    by (simp add: exampleDeviceWorld_def ManagedBuffer_computed_def)
  have callback: "\<forall>v. renderAttributeBuffer (buffer (stateOf (exampleComputeFunc v))) =
      renderAttributeBuffer (buffer v)"
    by (simp add: exampleComputeFunc_def populateAndNotify_keeps_render_buffer)
  have views: "list_all (\<lambda>view. viewBuffer view \<noteq> 0) (existingIndexedViews (buffer ?w))"
    by (simp add: exampleDeviceWorld_def ManagedBuffer_computed_def)
  have host: "data (buffer ?w) = [4, 5, 6]"
    by (simp add: exampleDeviceWorld_def ManagedBuffer_computed_def)
  from render_buffer_never_replaced [OF created callback, of idleIndexCompute
      "[WriteHostData [7, 8, 9], MarkHostBufferUpdated, RecomputeIfPopulated,
        MarkRenderAttributeBufferUpdated, EnsureHostBufferPopulated]"] views host
  show ?thesis by simp
qed

section \<open>Data that lives on the device\<close>

lemma perform_populates:
  assumes before: "\<not> hostBufferIsPopulated (buffer w)"
      and after: "hostBufferIsPopulated (buffer (perform cf icf op w))"
  shows "op = MarkHostBufferUpdated \<or> op = RecomputeIfPopulated \<or>
         (computesOnDemand op \<and> currentCanonicalDataSource (buffer w) = Inr NeedsCompute)"
proof (cases "currentCanonicalDataSource (buffer w) = Inr NeedsCompute")
  case True
  show ?thesis
  proof (cases op)
    case MarkRenderAttributeBufferUpdated
    with after show ?thesis by (simp add: markRenderAttributeBufferUpdated_fields)
  next
    case UpdateIndexedViews
    with before after show ?thesis by (simp add: sameExceptViews_fields [OF updateIndexedViews_frame])
  next
    case RemoveDeletedIndexedViews
    with before after show ?thesis by (simp add: removeDeletedIndexedViews_def)
  next
    case InvalidateHostBuffer
    with after show ?thesis by simp
  next
    case (WriteHostData xs)
    with before after show ?thesis by (simp add: writeHostData_def)
  next
    case Size
    with before after show ?thesis by simp
  qed (simp_all add: True)
next
  case False
  show ?thesis
  proof (cases op)
    case EnsureHostBufferPopulated
    with before after show ?thesis by (simp add: ensureHostBufferPopulated_no_compute [OF False])
  next
    case GetPopulatedHostBufferRef
    with before after show ?thesis
      by (simp add: getPopulatedHostBufferRef_state ensureHostBufferPopulated_no_compute [OF False])
  next
    case (GetValue ind)
    with before after show ?thesis by (simp add: getValue_no_compute [OF False])
  next
    case Size
    with before after show ?thesis by simp
  next
    case GetRenderAttributeBuffer
    show ?thesis
    proof (cases "renderAttributeBuffer (buffer w)")
      case (Some a)
      with before after GetRenderAttributeBuffer show ?thesis
        by (simp add: getRenderAttributeBuffer_existing)
    next
      case None
      with before False have "ensureHostBufferPopulated cf w = Throw (NoDataSource (name (buffer w))) w"
        by (auto simp: ensureHostBufferPopulated_def currentCanonicalDataSource_def split: if_splits)
      with None before after GetRenderAttributeBuffer show ?thesis
        by (simp add: getRenderAttributeBuffer_def)
    qed
  next
    case MarkRenderAttributeBufferUpdated
    with after show ?thesis by (simp add: markRenderAttributeBufferUpdated_fields)
  next
    case (GetIndexedRenderAttributeBuffer p)
    with before after show ?thesis by (simp add: getIndexedRenderAttributeBuffer_no_compute [OF False])
  next
    case UpdateIndexedViews
    with before after show ?thesis by (simp add: sameExceptViews_fields [OF updateIndexedViews_frame])
  next
    case RemoveDeletedIndexedViews
    with before after show ?thesis by (simp add: removeDeletedIndexedViews_def)
  next
    case InvalidateHostBuffer
    with after show ?thesis by simp
  next
    case (WriteHostData xs)
    with before after show ?thesis by (simp add: writeHostData_def)
  qed simp_all
qed

lemma ensureHostBufferPopulated_RenderBuffer:
  assumes "currentCanonicalDataSource (buffer w) = Inr RenderBuffer"
  shows "\<exists>a. renderAttributeBuffer (buffer w) = Some a \<and> \<not> hostBufferIsPopulated (buffer w) \<and>
             ensureHostBufferPopulated cf w =
               Return () (writeHostData (getAttributeBufferDataRange (attributeData w a) 0
                                           (getDataSize (attributeData w a))) w)"
  using assms
  by (auto simp: ensureHostBufferPopulated_def currentCanonicalDataSource_def writeHostData_def
        split: if_splits)

lemma read_back_whole_buffer:
  "length xs < 2 ^ 64 \<Longrightarrow> getAttributeBufferDataRange xs 0 (getDataSize xs) = xs"
  by (simp add: getAttributeBufferDataRange_def getDataSize_def unat_of_nat)

text \<open>
  Claim C10. When \<open>ensureHostBufferPopulated\<close> runs while the canonical source is the
  render buffer, it returns, having copied the whole device contents into the host array,
  and leaves \<open>hostBufferIsPopulated\<close> false: the canonical source is still the render
  buffer, \<open>size()\<close> is the element count of the device buffer and \<open>getValue\<close> reads the
  device buffer. The flag \<open>hostBufferIsPopulated\<close> is true after the constructor without
  compute function and false after the other one, and an operation turns it from false to
  true only if it is \<open>markHostBufferUpdated\<close>, or \<open>recomputeIfPopulated\<close> (which calls
  it), or if it ran the compute function (which is to call it).
\<close>

theorem device_data_stays_canonical:
  "(currentCanonicalDataSource (buffer w) = Inr RenderBuffer \<longrightarrow>
      (\<exists>a. renderAttributeBuffer (buffer w) = Some a \<and>
           returns (ensureHostBufferPopulated cf w) \<and>
           (length (attributeData w a) < 2 ^ 64 \<longrightarrow>
              data (buffer (stateOf (ensureHostBufferPopulated cf w))) = attributeData w a) \<and>
           \<not> hostBufferIsPopulated (buffer (stateOf (ensureHostBufferPopulated cf w))) \<and>
           currentCanonicalDataSource (buffer (stateOf (ensureHostBufferPopulated cf w))) =
             Inr RenderBuffer \<and>
           size_buffer (stateOf (ensureHostBufferPopulated cf w)) =
             Return (getDataSize (attributeData w a)) (stateOf (ensureHostBufferPopulated cf w)) \<and>
           (sint ind < sint (getDataSize (attributeData w a)) \<and> unat ind < length (attributeData w a) \<longrightarrow>
              getValue cf ind (stateOf (ensureHostBufferPopulated cf w)) =
                Return (attributeData w a ! unat ind) (stateOf (ensureHostBufferPopulated cf w))))) \<and>
   (\<not> hostBufferIsPopulated (buffer w) \<and> hostBufferIsPopulated (buffer (perform cf icf op w)) \<longrightarrow>
      op = MarkHostBufferUpdated \<or> op = RecomputeIfPopulated \<or>
      (computesOnDemand op \<and> currentCanonicalDataSource (buffer w) = Inr NeedsCompute)) \<and>
   hostBufferIsPopulated (ManagedBuffer_host nm uid xs) \<and>
   \<not> hostBufferIsPopulated (ManagedBuffer_computed nm uid xs)"
proof -
  have first: "\<exists>a. renderAttributeBuffer (buffer w) = Some a \<and>
           returns (ensureHostBufferPopulated cf w) \<and>
           (length (attributeData w a) < 2 ^ 64 \<longrightarrow>
              data (buffer (stateOf (ensureHostBufferPopulated cf w))) = attributeData w a) \<and>
           \<not> hostBufferIsPopulated (buffer (stateOf (ensureHostBufferPopulated cf w))) \<and>
           currentCanonicalDataSource (buffer (stateOf (ensureHostBufferPopulated cf w))) =
             Inr RenderBuffer \<and>
           size_buffer (stateOf (ensureHostBufferPopulated cf w)) =
             Return (getDataSize (attributeData w a)) (stateOf (ensureHostBufferPopulated cf w)) \<and>
           (sint ind < sint (getDataSize (attributeData w a)) \<and> unat ind < length (attributeData w a) \<longrightarrow>
              getValue cf ind (stateOf (ensureHostBufferPopulated cf w)) =
                Return (attributeData w a ! unat ind) (stateOf (ensureHostBufferPopulated cf w)))"
    if src: "currentCanonicalDataSource (buffer w) = Inr RenderBuffer"
  proof -
    from ensureHostBufferPopulated_RenderBuffer [OF src, of cf]
    obtain a where a: "renderAttributeBuffer (buffer w) = Some a"
      and np: "\<not> hostBufferIsPopulated (buffer w)"
      and e: "ensureHostBufferPopulated cf w =
               Return () (writeHostData (getAttributeBufferDataRange (attributeData w a) 0
                                           (getDataSize (attributeData w a))) w)"
      by blast
    show ?thesis
      using a np
      by (intro exI [of _ a])
         (simp add: e writeHostData_def read_back_whole_buffer currentCanonicalDataSource_def
            size_buffer_def getValue_def getAttributeBufferData_def)
  qed
  have second: "op = MarkHostBufferUpdated \<or> op = RecomputeIfPopulated \<or>
      (computesOnDemand op \<and> currentCanonicalDataSource (buffer w) = Inr NeedsCompute)"
    if "\<not> hostBufferIsPopulated (buffer w)" "hostBufferIsPopulated (buffer (perform cf icf op w))"
    using perform_populates [OF that] .
  have third: "hostBufferIsPopulated (ManagedBuffer_host nm uid xs)"
    "\<not> hostBufferIsPopulated (ManagedBuffer_computed nm uid xs)"
    by (simp_all add: ManagedBuffer_host_def ManagedBuffer_computed_def)
  from first second third show ?thesis by blast
qed

theorem device_data_stays_canonical_witness:
  "data (buffer (stateOf (ensureHostBufferPopulated exampleComputeFunc
      (exampleDeviceWorld False [] [1, 2, 3])))) = [1, 2, 3] \<and>
   \<not> hostBufferIsPopulated (buffer (stateOf (ensureHostBufferPopulated exampleComputeFunc
      (exampleDeviceWorld False [] [1, 2, 3])))) \<and>
   size_buffer (stateOf (ensureHostBufferPopulated exampleComputeFunc
      (exampleDeviceWorld False [] [1, 2, 3]))) =
     Return 3 (stateOf (ensureHostBufferPopulated exampleComputeFunc
      (exampleDeviceWorld False [] [1, 2, 3]))) \<and>
   getValue exampleComputeFunc 1 (stateOf (ensureHostBufferPopulated exampleComputeFunc
      (exampleDeviceWorld False [] [1, 2, 3]))) =
     Return 2 (stateOf (ensureHostBufferPopulated exampleComputeFunc
      (exampleDeviceWorld False [] [1, 2, 3]))) \<and>
   hostBufferIsPopulated (buffer (perform exampleComputeFunc idleIndexCompute MarkHostBufferUpdated
      (exampleDeviceWorld False [] [1, 2, 3])))"
proof -
  let ?w = "exampleDeviceWorld False [] [1, 2, 3 :: int]"
  let ?w' = "stateOf (ensureHostBufferPopulated exampleComputeFunc ?w)"
  have src: "currentCanonicalDataSource (buffer ?w) = Inr RenderBuffer"
    by (simp add: currentCanonicalDataSource_def exampleDeviceWorld_def ManagedBuffer_computed_def)
  have dev: "renderAttributeBuffer (buffer ?w) = Some 0" "attributeData ?w 0 = [1, 2, 3]"
    by (simp_all add: exampleDeviceWorld_def ManagedBuffer_computed_def)
  have small: "length (attributeData ?w 0) < 2 ^ 64"
    by (simp add: dev)
  have inside: "sint (1 :: size_t) < sint (getDataSize (attributeData ?w 0)) \<and>
      unat (1 :: size_t) < length (attributeData ?w 0)"
    by (simp add: dev getDataSize_def)
  from device_data_stays_canonical [of ?w exampleComputeFunc 1 idleIndexCompute
      MarkHostBufferUpdated "''values''" 0 "[]"] src dev(1)
  have "(length (attributeData ?w 0) < 2 ^ 64 \<longrightarrow> data (buffer ?w') = attributeData ?w 0) \<and>
      \<not> hostBufferIsPopulated (buffer ?w') \<and>
      size_buffer ?w' = Return (getDataSize (attributeData ?w 0)) ?w' \<and>
      (sint (1 :: size_t) < sint (getDataSize (attributeData ?w 0)) \<and>
       unat (1 :: size_t) < length (attributeData ?w 0) \<longrightarrow>
         getValue exampleComputeFunc 1 ?w' = Return (attributeData ?w 0 ! unat (1 :: size_t)) ?w')"
    by auto
  with small inside
  have "data (buffer ?w') = [1, 2, 3] \<and> \<not> hostBufferIsPopulated (buffer ?w') \<and>
      size_buffer ?w' = Return 3 ?w' \<and> getValue exampleComputeFunc 1 ?w' = Return 2 ?w'"
    by (simp add: dev getDataSize_def)
  moreover have "hostBufferIsPopulated (buffer (perform exampleComputeFunc idleIndexCompute
      MarkHostBufferUpdated ?w))"
    by (simp add: markHostBufferUpdated_fields)
  ultimately show ?thesis by simp
qed

section \<open>Forced recomputation\<close>

lemma indices_ensureHostBufferPopulated_errors:
  assumes "indices_ensureHostBufferPopulated icf p s = Throw e s'"
      and "\<forall>q t e' t'. icf q t = Throw e' t' \<longrightarrow> e' \<noteq> RecomputeNotComputed"
  shows "e \<noteq> RecomputeNotComputed"
  using assms
  by (auto simp: indices_ensureHostBufferPopulated_def currentCanonicalDataSource_def
        split: sum.splits CanonicalDataSource.splits option.splits if_splits)

lemma ensureIndices_errors:
  assumes "ensureIndices icf p w = Throw e w'"
      and "\<forall>q t e' t'. icf q t = Throw e' t' \<longrightarrow> e' \<noteq> RecomputeNotComputed"
  shows "e \<noteq> RecomputeNotComputed"
proof (cases "indices_ensureHostBufferPopulated icf p (idx w)")
  case (Return u s)
  with assms(1) show ?thesis by (simp add: ensureIndices_def)
next
  case (Throw e' s)
  with assms(1) have "e' = e" by (simp add: ensureIndices_def)
  with indices_ensureHostBufferPopulated_errors [OF Throw assms(2)] show ?thesis by simp
qed

lemma updateIndexedView_errors:
  assumes "updateIndexedView icf i view w = Throw e w'"
      and icf: "\<forall>q t e' t'. icf q t = Throw e' t' \<longrightarrow> e' \<noteq> RecomputeNotComputed"
  shows "e \<noteq> RecomputeNotComputed"
proof (cases "currentCanonicalDataSource (buffer w)")
  case (Inl e')
  with assms(1) show ?thesis
    by (auto simp: updateIndexedView_def currentCanonicalDataSource_def split: if_splits)
next
  case (Inr src)
  show ?thesis
  proof (cases src)
    case HostData
    show ?thesis
    proof (cases "ensureIndices icf (indices view) w")
      case (Return u w1)
      with assms(1) Inr HostData show ?thesis
        by (auto simp: updateIndexedView_def gather_def split: sum.splits if_splits)
    next
      case (Throw e' w1)
      with assms(1) Inr HostData have "e' = e" by (simp add: updateIndexedView_def)
      with ensureIndices_errors [OF Throw icf] show ?thesis by simp
    qed
  next
    case NeedsCompute
    with assms(1) Inr show ?thesis by (auto simp: updateIndexedView_def)
  next
    case RenderBuffer
    have prog: "e' \<noteq> RecomputeNotComputed"
      if "ensureHaveBufferIndexCopyProgram icf i view w = Throw e' w1" for e' w1
    proof (cases "deviceUpdateProgram view")
      case (Some prog)
      with that show ?thesis by (simp add: ensureHaveBufferIndexCopyProgram_def)
    next
      case None
      show ?thesis
      proof (cases "renderAttributeBuffer (buffer w)")
        case None
        with that \<open>deviceUpdateProgram view = None\<close> show ?thesis
          by (auto simp: ensureHaveBufferIndexCopyProgram_def)
      next
        case (Some srcbuf)
        let ?v = "w\<lparr>buffer := (buffer w)\<lparr>existingIndexedViews :=
                           (existingIndexedViews (buffer w))
                             [i := view\<lparr>deviceUpdateProgram :=
                                Some \<lparr>a_val_in = srcbuf, a_val_out = viewBuffer view, shaderIndex = None\<rparr>\<rparr>]\<rparr>\<rparr>"
        show ?thesis
        proof (cases "ensureIndices icf (indices view) ?v")
          case (Return u w2)
          with that Some \<open>deviceUpdateProgram view = None\<close> show ?thesis
            by (simp add: ensureHaveBufferIndexCopyProgram_def Let_def)
        next
          case (Throw e2 w2)
          with that Some \<open>deviceUpdateProgram view = None\<close> have "e2 = e'"
            by (simp add: ensureHaveBufferIndexCopyProgram_def Let_def)
          with ensureIndices_errors [OF Throw icf] show ?thesis by simp
        qed
      qed
    qed
    show ?thesis
    proof (cases "ensureHaveBufferIndexCopyProgram icf i view w")
      case (Return p w1)
      with assms(1) Inr RenderBuffer show ?thesis
        by (auto simp: updateIndexedView_def computeFeedback_def split: option.splits sum.splits)
    next
      case (Throw e' w1)
      with assms(1) Inr RenderBuffer have "e' = e" by (simp add: updateIndexedView_def)
      with prog [OF Throw] show ?thesis by simp
    qed
  qed
qed

lemma updateIndexedViews_loop_errors:
  assumes icf: "\<forall>q t e' t'. icf q t = Throw e' t' \<longrightarrow> e' \<noteq> RecomputeNotComputed"
  shows "updateIndexedViews_loop icf i vs w = Throw e w' \<Longrightarrow> e \<noteq> RecomputeNotComputed"
proof (induction vs arbitrary: i w)
  case Nil
  then show ?case by simp
next
  case (Cons view rest)
  show ?case
  proof (cases "alive w (viewBuffer view)")
    case False
    with Cons show ?thesis by simp
  next
    case True
    show ?thesis
    proof (cases "updateIndexedView icf i view w")
      case (Return u w1)
      with True Cons.prems Cons.IH [of "Suc i" w1] show ?thesis by simp
    next
      case (Throw e' w1)
      with True Cons.prems have "e' = e" by simp
      with updateIndexedView_errors [OF Throw icf] show ?thesis by simp
    qed
  qed
qed

lemma markHostBufferUpdated_errors:
  assumes "markHostBufferUpdated icf w = Throw e w'"
      and icf: "\<forall>q t e' t'. icf q t = Throw e' t' \<longrightarrow> e' \<noteq> RecomputeNotComputed"
  shows "e \<noteq> RecomputeNotComputed"
  using assms(1) updateIndexedViews_loop_errors [OF icf]
  by (simp add: markHostBufferUpdated_def updateIndexedViews_def Let_def)

text \<open>
  Claim C6. \<open>recomputeIfPopulated\<close> raises its usage error, touching nothing, when the
  buffer has no compute function. Otherwise, if the canonical source is a pending
  computation it returns and leaves the whole state as it is. In every other case the
  compute function runs on the state in which \<open>hostBufferIsPopulated\<close> is false and the
  host array is empty (everything else as before, one more call counted), and
  \<open>markHostBufferUpdated\<close> runs on what it returns: a raise of the compute function is
  the raise of the operation, and after a return the flag is set, the host array is the
  one the compute function left, and a device buffer that is no view holds that array. As
  long as the callbacks do not raise that usage error themselves, the operation raises it
  if and only if the buffer has no compute function.
\<close>

theorem recomputeIfPopulated_behaviour:
  "(\<not> dataGetsComputed (buffer w) \<longrightarrow>
      recomputeIfPopulated cf icf w = Throw RecomputeNotComputed w) \<and>
   (dataGetsComputed (buffer w) \<and> currentCanonicalDataSource (buffer w) = Inr NeedsCompute \<longrightarrow>
      recomputeIfPopulated cf icf w = Return () w) \<and>
   (dataGetsComputed (buffer w) \<and> currentCanonicalDataSource (buffer w) \<noteq> Inr NeedsCompute \<longrightarrow>
      recomputeIfPopulated cf icf w =
        andThen (cf (w\<lparr>buffer := (buffer w)\<lparr>hostBufferIsPopulated := False, data := []\<rparr>,
                       computeCalls := Suc (computeCalls w)\<rparr>))
          (\<lambda>u v. markHostBufferUpdated icf v) \<and>
      (cf (w\<lparr>buffer := (buffer w)\<lparr>hostBufferIsPopulated := False, data := []\<rparr>,
             computeCalls := Suc (computeCalls w)\<rparr>) = Throw e v \<longrightarrow>
         recomputeIfPopulated cf icf w = Throw e v) \<and>
      (cf (w\<lparr>buffer := (buffer w)\<lparr>hostBufferIsPopulated := False, data := []\<rparr>,
             computeCalls := Suc (computeCalls w)\<rparr>) = Return u v \<longrightarrow>
         hostBufferIsPopulated (buffer (stateOf (recomputeIfPopulated cf icf w))) \<and>
         data (buffer (stateOf (recomputeIfPopulated cf icf w))) = data (buffer v) \<and>
         computeCalls (stateOf (recomputeIfPopulated cf icf w)) = computeCalls v \<and>
         (renderAttributeBuffer (buffer v) = Some a \<and>
          list_all (\<lambda>view. viewBuffer view \<noteq> a) (existingIndexedViews (buffer v)) \<longrightarrow>
            attributeData (stateOf (recomputeIfPopulated cf icf w)) a = data (buffer v)))) \<and>
   ((\<forall>v e v'. cf v = Throw e v' \<longrightarrow> e \<noteq> RecomputeNotComputed) \<and>
    (\<forall>q t e t'. icf q t = Throw e t' \<longrightarrow> e \<noteq> RecomputeNotComputed) \<longrightarrow>
      ((\<exists>w'. recomputeIfPopulated cf icf w = Throw RecomputeNotComputed w') \<longleftrightarrow>
       \<not> dataGetsComputed (buffer w)))"
proof -
  let ?v = "w\<lparr>buffer := (buffer w)\<lparr>hostBufferIsPopulated := False, data := []\<rparr>,
               computeCalls := Suc (computeCalls w)\<rparr>"
  have a: "recomputeIfPopulated cf icf w = Throw RecomputeNotComputed w"
    if "\<not> dataGetsComputed (buffer w)"
    using that by (simp add: recomputeIfPopulated_def)
  have b: "recomputeIfPopulated cf icf w = Return () w"
    if "dataGetsComputed (buffer w)" "currentCanonicalDataSource (buffer w) = Inr NeedsCompute"
    using that by (simp add: recomputeIfPopulated_def)
  have c: "recomputeIfPopulated cf icf w = andThen (cf ?v) (\<lambda>u v. markHostBufferUpdated icf v)"
    if "dataGetsComputed (buffer w)" "currentCanonicalDataSource (buffer w) \<noteq> Inr NeedsCompute"
    using that
    by (auto simp: recomputeIfPopulated_def currentCanonicalDataSource_def invokeComputeFunc_def
          invalidateHostBuffer_def split: if_splits)
  have c1: "recomputeIfPopulated cf icf w = Throw e v"
    if "dataGetsComputed (buffer w)" "currentCanonicalDataSource (buffer w) \<noteq> Inr NeedsCompute"
      "cf ?v = Throw e v"
    using c [OF that(1,2)] that(3) by simp
  have c2: "hostBufferIsPopulated (buffer (stateOf (recomputeIfPopulated cf icf w))) \<and>
         data (buffer (stateOf (recomputeIfPopulated cf icf w))) = data (buffer v) \<and>
         computeCalls (stateOf (recomputeIfPopulated cf icf w)) = computeCalls v \<and>
         (renderAttributeBuffer (buffer v) = Some a \<and>
          list_all (\<lambda>view. viewBuffer view \<noteq> a) (existingIndexedViews (buffer v)) \<longrightarrow>
            attributeData (stateOf (recomputeIfPopulated cf icf w)) a = data (buffer v))"
    if "dataGetsComputed (buffer w)" "currentCanonicalDataSource (buffer w) \<noteq> Inr NeedsCompute"
      "cf ?v = Return u v"
  proof -
    from c [OF that(1,2)] that(3)
    have r: "recomputeIfPopulated cf icf w = markHostBufferUpdated icf v" by simp
    show ?thesis
      using markHostBufferUpdated_contents [of v a icf]
      by (simp add: r markHostBufferUpdated_fields)
  qed
  have d: "(\<exists>w'. recomputeIfPopulated cf icf w = Throw RecomputeNotComputed w') \<longleftrightarrow>
       \<not> dataGetsComputed (buffer w)"
    if cfe: "\<forall>v e v'. cf v = Throw e v' \<longrightarrow> e \<noteq> RecomputeNotComputed"
      and icfe: "\<forall>q t e t'. icf q t = Throw e t' \<longrightarrow> e \<noteq> RecomputeNotComputed"
  proof
    assume "\<not> dataGetsComputed (buffer w)"
    with a show "\<exists>w'. recomputeIfPopulated cf icf w = Throw RecomputeNotComputed w'" by blast
  next
    assume "\<exists>w'. recomputeIfPopulated cf icf w = Throw RecomputeNotComputed w'"
    then obtain w' where t: "recomputeIfPopulated cf icf w = Throw RecomputeNotComputed w'" ..
    show "\<not> dataGetsComputed (buffer w)"
    proof
      assume dc: "dataGetsComputed (buffer w)"
      show False
      proof (cases "currentCanonicalDataSource (buffer w) = Inr NeedsCompute")
        case True
        with b [OF dc] t show False by simp
      next
        case False
        from c [OF dc False] t
        have t2: "andThen (cf ?v) (\<lambda>u w1. markHostBufferUpdated icf w1) = Throw RecomputeNotComputed w'"
          by simp
        show False
        proof (cases "cf ?v")
          case (Return u w1)
          with t2 have "markHostBufferUpdated icf w1 = Throw RecomputeNotComputed w'" by simp
          with markHostBufferUpdated_errors [OF _ icfe] show False by blast
        next
          case (Throw e w1)
          with t2 have "e = RecomputeNotComputed" by simp
          with Throw cfe show False by blast
        qed
      qed
    qed
  qed
  from a b c c1 c2 d show ?thesis by blast
qed

lemma populateAndNotify_errors:
  assumes "\<forall>q t e t'. icf q t = Throw e t' \<longrightarrow> e \<noteq> RecomputeNotComputed"
  shows "\<forall>v e v'. populateAndNotify fill icf v = Throw e v' \<longrightarrow> e \<noteq> RecomputeNotComputed"
  using markHostBufferUpdated_errors [OF _ assms]
  by (auto simp: populateAndNotify_def)

theorem recomputeIfPopulated_behaviour_witness:
  "recomputeIfPopulated exampleAppendComputeFunc idleIndexCompute
      (exampleWorld (ManagedBuffer_host ''values'' 0 [1, 2, 3])) =
     Throw RecomputeNotComputed (exampleWorld (ManagedBuffer_host ''values'' 0 [1, 2, 3])) \<and>
   recomputeIfPopulated exampleAppendComputeFunc idleIndexCompute
      (exampleWorld (ManagedBuffer_computed ''values'' 0 [])) =
     Return () (exampleWorld (ManagedBuffer_computed ''values'' 0 [])) \<and>
   hostBufferIsPopulated (buffer (stateOf (recomputeIfPopulated exampleAppendComputeFunc idleIndexCompute
      (exampleDeviceWorld True [4, 5, 6] [1, 2, 3])))) \<and>
   data (buffer (stateOf (recomputeIfPopulated exampleAppendComputeFunc idleIndexCompute
      (exampleDeviceWorld True [4, 5, 6] [1, 2, 3])))) = [7] \<and>
   attributeData (stateOf (recomputeIfPopulated exampleAppendComputeFunc idleIndexCompute
      (exampleDeviceWorld True [4, 5, 6] [1, 2, 3]))) 0 = [7] \<and>
   computeCalls (stateOf (recomputeIfPopulated exampleAppendComputeFunc idleIndexCompute
      (exampleDeviceWorld True [4, 5, 6] [1, 2, 3]))) = 1 \<and>
   (\<forall>w'. recomputeIfPopulated exampleAppendComputeFunc idleIndexCompute
           (exampleDeviceWorld True [4, 5, 6] [1, 2, 3]) \<noteq> Throw RecomputeNotComputed w')"
proof -
  let ?h = "exampleWorld (ManagedBuffer_host ''values'' 0 [1, 2, 3 :: int])"
  let ?c = "exampleWorld (ManagedBuffer_computed ''values'' 0 ([] :: int list))"
  let ?d = "exampleDeviceWorld True [4, 5, 6] [1, 2, 3 :: int]"
  let ?i = "?d\<lparr>buffer := (buffer ?d)\<lparr>hostBufferIsPopulated := False, data := []\<rparr>,
               computeCalls := Suc (computeCalls ?d)\<rparr>"
  have h: "\<not> dataGetsComputed (buffer ?h)"
    by (simp add: exampleWorld_def ManagedBuffer_host_def)
  have c: "dataGetsComputed (buffer ?c) \<and> currentCanonicalDataSource (buffer ?c) = Inr NeedsCompute"
    by (simp add: exampleWorld_def ManagedBuffer_computed_def currentCanonicalDataSource_def)
  have d: "dataGetsComputed (buffer ?d) \<and> currentCanonicalDataSource (buffer ?d) \<noteq> Inr NeedsCompute"
    by (simp add: exampleDeviceWorld_def ManagedBuffer_computed_def currentCanonicalDataSource_def)
  have idle: "\<forall>q t e t'. idleIndexCompute q t = Throw e t' \<longrightarrow> e \<noteq> RecomputeNotComputed"
    by (simp add: idleIndexCompute_def)
  have quiet: "\<forall>v e v'. exampleAppendComputeFunc v = Throw e v' \<longrightarrow> e \<noteq> RecomputeNotComputed"
    unfolding exampleAppendComputeFunc_def by (rule populateAndNotify_errors [OF idle])
  have ran: "exampleAppendComputeFunc ?i = Return () (stateOf (exampleAppendComputeFunc ?i))"
    by (rule returns_unit)
       (simp add: exampleAppendComputeFunc_def exampleAppendFill_def populateAndNotify_def
          markHostBufferUpdated_def updateIndexedViews_def removeDeletedIndexedViews_def
          exampleDeviceWorld_def ManagedBuffer_computed_def setData_def requestRedraw_def Let_def)
  have seen: "data (buffer (stateOf (exampleAppendComputeFunc ?i))) = [7]"
    "computeCalls (stateOf (exampleAppendComputeFunc ?i)) = 1"
    "renderAttributeBuffer (buffer (stateOf (exampleAppendComputeFunc ?i))) = Some 0"
    "list_all (\<lambda>view. viewBuffer view \<noteq> 0)
       (existingIndexedViews (buffer (stateOf (exampleAppendComputeFunc ?i))))"
    by (simp_all add: exampleAppendComputeFunc_def exampleAppendFill_def populateAndNotify_def
          markHostBufferUpdated_def updateIndexedViews_def removeDeletedIndexedViews_def
          exampleDeviceWorld_def ManagedBuffer_computed_def setData_def requestRedraw_def Let_def)
  from recomputeIfPopulated_behaviour [of ?h exampleAppendComputeFunc idleIndexCompute] h
  have 1: "recomputeIfPopulated exampleAppendComputeFunc idleIndexCompute ?h =
      Throw RecomputeNotComputed ?h"
    by blast
  from recomputeIfPopulated_behaviour [of ?c exampleAppendComputeFunc idleIndexCompute] c
  have 2: "recomputeIfPopulated exampleAppendComputeFunc idleIndexCompute ?c = Return () ?c"
    by blast
  from recomputeIfPopulated_behaviour [where w = ?d and cf = exampleAppendComputeFunc
      and icf = idleIndexCompute and u = "()" and v = "stateOf (exampleAppendComputeFunc ?i)" and a = 0]
    d ran seen(3,4) quiet idle
  have 3: "hostBufferIsPopulated (buffer (stateOf (recomputeIfPopulated exampleAppendComputeFunc idleIndexCompute ?d)))"
    "data (buffer (stateOf (recomputeIfPopulated exampleAppendComputeFunc idleIndexCompute ?d))) =
      data (buffer (stateOf (exampleAppendComputeFunc ?i)))"
    "computeCalls (stateOf (recomputeIfPopulated exampleAppendComputeFunc idleIndexCompute ?d)) =
      computeCalls (stateOf (exampleAppendComputeFunc ?i))"
    "attributeData (stateOf (recomputeIfPopulated exampleAppendComputeFunc idleIndexCompute ?d)) 0 =
      data (buffer (stateOf (exampleAppendComputeFunc ?i)))"
    "\<forall>w'. recomputeIfPopulated exampleAppendComputeFunc idleIndexCompute ?d \<noteq> Throw RecomputeNotComputed w'"
    by blast+
  from 1 2 3 show ?thesis by (simp add: seen)
qed


section \<open>Indexed views\<close>

lemma gather_Inr:
  "gather xs is = Inr ys \<longleftrightarrow>
     list_all (\<lambda>i. unat i < length xs) is \<and> ys = map (\<lambda>i. xs ! unat i) is"
  by (auto simp: gather_def)

lemma updateIndexedViews_loop_append:
  "updateIndexedViews_loop icf i (xs @ ys) w =
     (case updateIndexedViews_loop icf i xs w of
        Throw e w' \<Rightarrow> Throw e w'
      | Return u w' \<Rightarrow> updateIndexedViews_loop icf (i + length xs) ys w')"
proof (induction xs arbitrary: i w)
  case Nil
  show ?case by simp
next
  case (Cons view rest)
  show ?case
  proof (cases "alive w (viewBuffer view)")
    case False
    then show ?thesis by (simp add: Cons.IH split: result.splits)
  next
    case True
    then show ?thesis
      by (cases "updateIndexedView icf i view w") (simp_all add: Cons.IH split: result.splits)
  qed
qed

lemma updateIndexedView_host_returns:
  assumes pop: "hostBufferIsPopulated (buffer w)"
      and ret: "updateIndexedView icf i view w = Return u w'"
  shows "gather (data (buffer w)) (data (indexBuffers (idx w') (indices view))) =
           Inr (attributeData w' (viewBuffer view))"
proof (cases "indices_ensureHostBufferPopulated icf (indices view) (idx w)")
  case (Return u1 s)
  with pop ret show ?thesis
    by (auto simp: updateIndexedView_def currentCanonicalDataSource_def ensureIndices_def
          setData_def split: sum.splits)
next
  case (Throw e s)
  with pop ret show ?thesis
    by (simp add: updateIndexedView_def currentCanonicalDataSource_def ensureIndices_def)
qed

lemma updateIndexedViews_loop_last:
  assumes pop: "hostBufferIsPopulated (buffer w)"
      and live: "alive w (viewBuffer view)"
      and ret: "updateIndexedViews_loop icf i (vs @ [view]) w = Return u w'"
  shows "gather (data (buffer w)) (data (indexBuffers (idx w') (indices view))) =
           Inr (attributeData w' (viewBuffer view))"
proof (cases "updateIndexedViews_loop icf i vs w")
  case (Throw e w1)
  with ret show ?thesis by (simp add: updateIndexedViews_loop_append)
next
  case (Return u1 w1)
  from updateIndexedViews_loop_frame [of w icf i vs] Return
  have fr: "sameExceptViews w w1" by simp
  note f = sameExceptViews_fields [OF fr]
  from live f have live1: "alive w1 (viewBuffer view)" by simp
  from pop f have pop1: "hostBufferIsPopulated (buffer w1)" by simp
  from ret Return live1
  have "updateIndexedView icf (i + length vs) view w1 = Return u w'"
    by (cases "updateIndexedView icf (i + length vs) view w1")
       (simp_all add: updateIndexedViews_loop_append)
  from updateIndexedView_host_returns [OF pop1 this] f show ?thesis by simp
qed

lemma markHostBufferUpdated_refreshes_last:
  assumes views: "existingIndexedViews (buffer w) = vs @ [view]"
      and live: "alive w (viewBuffer view)"
      and ret: "markHostBufferUpdated icf w = Return u w'"
  shows "gather (data (buffer w)) (data (indexBuffers (idx w') (indices view))) =
           Inr (attributeData w' (viewBuffer view))"
proof -
  let ?w1 = "w\<lparr>buffer := (buffer w)\<lparr>hostBufferIsPopulated := True\<rparr>\<rparr>"
  let ?w2 = "case renderAttributeBuffer (buffer ?w1) of
                  None \<Rightarrow> ?w1
                | Some a \<Rightarrow> requestRedraw (setData a (data (buffer ?w1)) ?w1)"
  let ?w3 = "removeDeletedIndexedViews ?w2"
  have f2: "alive ?w2 = alive w" "existingIndexedViews (buffer ?w2) = vs @ [view]"
    "data (buffer ?w2) = data (buffer w)" "hostBufferIsPopulated (buffer ?w2)"
    by (simp_all add: views requestRedraw_def setData_def split: option.splits)
  have f3: "alive ?w3 = alive w"
    "existingIndexedViews (buffer ?w3) = filter (\<lambda>entry. alive w (viewBuffer entry)) vs @ [view]"
    "data (buffer ?w3) = data (buffer w)" "hostBufferIsPopulated (buffer ?w3)"
    using f2 live by (simp_all add: removeDeletedIndexedViews_def)
  have m: "markHostBufferUpdated icf w =
      updateIndexedViews_loop icf 0 (existingIndexedViews (buffer ?w3)) ?w3"
    by (simp add: markHostBufferUpdated_def updateIndexedViews_def Let_def)
  from ret have "updateIndexedViews_loop icf 0
      (filter (\<lambda>entry. alive w (viewBuffer entry)) vs @ [view]) ?w3 = Return u w'"
    by (simp only: m f3(2))
  from updateIndexedViews_loop_last [OF f3(4) _ this] live f3(1) f3(3)
  show ?thesis by simp
qed


lemma indices_ensureHostBufferPopulated_HostData:
  "hostBufferIsPopulated (indexBuffers s p) \<Longrightarrow>
     indices_ensureHostBufferPopulated icf p s = Return () s"
  by (simp add: indices_ensureHostBufferPopulated_def currentCanonicalDataSource_def)

lemma ensureIndices_HostData:
  "hostBufferIsPopulated (indexBuffers (idx w) p) \<Longrightarrow> ensureIndices icf p w = Return () w"
  by (simp add: ensureIndices_def indices_ensureHostBufferPopulated_HostData)

lemma getIndexedRenderAttributeBuffer_first_view:
  assumes empty: "existingIndexedViews (buffer w) = []"
      and host: "hostBufferIsPopulated (buffer w)"
      and ihost: "hostBufferIsPopulated (indexBuffers (idx w) p)"
      and inside: "list_all (\<lambda>i. unat i < length (data (buffer w))) (data (indexBuffers (idx w) p))"
  shows "\<exists>w1. getIndexedRenderAttributeBuffer cf icf p w = Return (nextAttributeBuffer w) w1 \<and>
              existingIndexedViews (buffer w1) =
                [\<lparr>indices = p, viewBuffer = nextAttributeBuffer w, deviceUpdateProgram = None\<rparr>] \<and>
              idx w1 = idx w \<and> data (buffer w1) = data (buffer w)"
proof -
  let ?w0 = "removeDeletedIndexedViews w"
  have "filter (\<lambda>entry. alive w (viewBuffer entry)) (existingIndexedViews (buffer w)) =
      existingIndexedViews (buffer w)"
    by (simp add: empty)
  then have w0: "?w0 = w"
    by (simp add: removeDeletedIndexedViews_def)
  have e: "ensureHostBufferPopulated cf w = Return () w"
    using host by (simp add: ensureHostBufferPopulated_def currentCanonicalDataSource_def)
  let ?w2 = "snd (generateAttributeBuffer w)"
  have i: "ensureIndices icf p ?w2 = Return () ?w2"
    using ihost by (simp add: ensureIndices_HostData generateAttributeBuffer_def)
  have g: "gather (data (buffer ?w2)) (data (indexBuffers (idx ?w2) p)) =
      Inr (map (\<lambda>i. data (buffer w) ! unat i) (data (indexBuffers (idx w) p)))"
    using inside by (simp add: gather_def generateAttributeBuffer_def)
  show ?thesis
    using e i g
    by (simp add: getIndexedRenderAttributeBuffer_def Let_def w0 empty
          generateAttributeBuffer_def setData_def)
qed

lemma getIndexedRenderAttributeBuffer_new_view:
  assumes miss: "findIndexedView (alive w) (indexBuffers (idx w)) (uniqueID (indexBuffers (idx w) p))
                   (existingIndexedViews (buffer (removeDeletedIndexedViews w))) = None"
      and src: "ensureHostBufferPopulated cf (removeDeletedIndexedViews w) = Return () v"
      and ind: "indices_ensureHostBufferPopulated icf p (idx v) = Return () s"
      and inside: "list_all (\<lambda>i. unat i < length (data (buffer v))) (data (indexBuffers s p))"
  shows "getIndexedRenderAttributeBuffer cf icf p w =
           Return (nextAttributeBuffer v)
             (v\<lparr>attributeData := (attributeData v)(nextAttributeBuffer v :=
                   map (\<lambda>i. data (buffer v) ! unat i) (data (indexBuffers s p))),
                alive := (alive v)(nextAttributeBuffer v := True),
                nextAttributeBuffer := Suc (nextAttributeBuffer v),
                idx := s,
                buffer := (buffer v)\<lparr>existingIndexedViews := existingIndexedViews (buffer v) @
                  [\<lparr>indices = p, viewBuffer = nextAttributeBuffer v,
                    deviceUpdateProgram = None\<rparr>]\<rparr>\<rparr>)"
proof -
  let ?w0 = "removeDeletedIndexedViews w"
  have w0: "alive ?w0 = alive w" "idx ?w0 = idx w"
    by (simp_all add: removeDeletedIndexedViews_def)
  let ?w2 = "snd (generateAttributeBuffer v)"
  have i: "ensureIndices icf p ?w2 = Return () (?w2\<lparr>idx := s\<rparr>)"
    using ind by (simp add: ensureIndices_def generateAttributeBuffer_def)
  have g: "gather (data (buffer (?w2\<lparr>idx := s\<rparr>))) (data (indexBuffers (idx (?w2\<lparr>idx := s\<rparr>)) p)) =
      Inr (map (\<lambda>i. data (buffer v) ! unat i) (data (indexBuffers s p)))"
    using inside by (simp add: gather_def generateAttributeBuffer_def)
  show ?thesis
    using miss src i g
    by (simp add: getIndexedRenderAttributeBuffer_def Let_def w0
          generateAttributeBuffer_def setData_def)
qed

lemma markHostBufferUpdated_one_view:
  assumes views: "existingIndexedViews (buffer w) = [view]"
      and live: "alive w (viewBuffer view)"
      and ind: "indices_ensureHostBufferPopulated icf (indices view) (idx w) = Return () s"
      and inside: "list_all (\<lambda>i. unat i < length (data (buffer w)))
                     (data (indexBuffers s (indices view)))"
  shows "\<exists>w'. markHostBufferUpdated icf w = Return () w' \<and> idx w' = s \<and>
           attributeData w' (viewBuffer view) =
             map (\<lambda>i. data (buffer w) ! unat i) (data (indexBuffers s (indices view)))"
proof -
  define w3 where "w3 = removeDeletedIndexedViews
      (case renderAttributeBuffer (buffer (w\<lparr>buffer := (buffer w)\<lparr>hostBufferIsPopulated := True\<rparr>\<rparr>)) of
         None \<Rightarrow> w\<lparr>buffer := (buffer w)\<lparr>hostBufferIsPopulated := True\<rparr>\<rparr>
       | Some a \<Rightarrow> requestRedraw (setData a
           (data (buffer (w\<lparr>buffer := (buffer w)\<lparr>hostBufferIsPopulated := True\<rparr>\<rparr>)))
           (w\<lparr>buffer := (buffer w)\<lparr>hostBufferIsPopulated := True\<rparr>\<rparr>)))"
  have f3: "alive w3 = alive w" "existingIndexedViews (buffer w3) = [view]"
    "data (buffer w3) = data (buffer w)" "hostBufferIsPopulated (buffer w3)" "idx w3 = idx w"
    using live
    by (simp_all add: w3_def removeDeletedIndexedViews_def views requestRedraw_def setData_def
          split: option.splits)
  have m: "markHostBufferUpdated icf w = updateIndexedViews_loop icf 0 [view] w3"
    unfolding markHostBufferUpdated_def updateIndexedViews_def Let_def w3_def [symmetric]
    by (simp only: f3(2))
  have i: "ensureIndices icf (indices view) w3 = Return () (w3\<lparr>idx := s\<rparr>)"
    using ind by (simp add: ensureIndices_def f3(5))
  have g: "gather (data (buffer w3)) (data (indexBuffers s (indices view))) =
      Inr (map (\<lambda>i. data (buffer w) ! unat i) (data (indexBuffers s (indices view))))"
    using inside by (simp add: gather_def f3(3))
  have one: "updateIndexedView icf 0 view w3 =
      Return () (setData (viewBuffer view)
        (map (\<lambda>i. data (buffer w) ! unat i) (data (indexBuffers s (indices view))))
        (w3\<lparr>idx := s\<rparr>))"
    using f3(4) by (simp add: updateIndexedView_def currentCanonicalDataSource_def i g)
  have l3: "alive w3 (viewBuffer view)"
    using live by (simp add: f3(1))
  have "updateIndexedViews_loop icf 0 [view] w3 =
      Return () (setData (viewBuffer view)
        (map (\<lambda>i. data (buffer w) ! unat i) (data (indexBuffers s (indices view))))
        (w3\<lparr>idx := s\<rparr>))"
    by (simp add: one l3)
  with m show ?thesis by (simp add: setData_def)
qed

text \<open>
  Claim C4. Let no live cached view exist for the index buffer. Wherever the data of the
  source buffer is (host array populated; on the device only, where it is read back; still
  to be computed, where \<open>computeFunc\<close> runs and returns) and wherever the data of the
  index buffer is (the same three cases), if all indices are within the data then
  \<open>getIndexedRenderAttributeBuffer\<close> returns a new object, the next one of the engine,
  which is alive and holds \<open>data[indices[k]]\<close> for every \<open>k\<close>. When the producer then
  writes the host array and calls \<open>markHostBufferUpdated\<close>: if the view is the only
  cached one and the indices (made available again in one of the three ways) are within
  the new data, the call returns and the same view, alive, holds the gather of the new
  data; with other views in the cache the same holds whenever the call returns.
\<close>

theorem indexed_view_holds_gather:
  assumes miss: "findIndexedView (alive w) (indexBuffers (idx w)) (uniqueID (indexBuffers (idx w) p))
        (existingIndexedViews (buffer (removeDeletedIndexedViews w))) = None"
    and source: "hostBufferIsPopulated (buffer w) \<and> v = removeDeletedIndexedViews w \<or>
        \<not> hostBufferIsPopulated (buffer w) \<and> renderAttributeBuffer (buffer w) = Some r \<and>
          length (attributeData w r) < 2 ^ 64 \<and>
          v = writeHostData (attributeData w r) (removeDeletedIndexedViews w) \<or>
        \<not> hostBufferIsPopulated (buffer w) \<and> renderAttributeBuffer (buffer w) = None \<and>
          dataGetsComputed (buffer w) \<and>
          cf ((removeDeletedIndexedViews w)\<lparr>computeCalls := Suc (computeCalls w)\<rparr>) = Return () v"
    and index: "hostBufferIsPopulated (indexBuffers (idx v) p) \<and> s = idx v \<or>
        \<not> hostBufferIsPopulated (indexBuffers (idx v) p) \<and>
          renderAttributeBuffer (indexBuffers (idx v) p) = Some q \<and>
          length (indexAttributeData (idx v) q) < 2 ^ 64 \<and>
          s = (idx v)\<lparr>indexBuffers := (indexBuffers (idx v))
                (p := (indexBuffers (idx v) p)\<lparr>data := indexAttributeData (idx v) q\<rparr>)\<rparr> \<or>
        \<not> hostBufferIsPopulated (indexBuffers (idx v) p) \<and>
          renderAttributeBuffer (indexBuffers (idx v) p) = None \<and>
          dataGetsComputed (indexBuffers (idx v) p) \<and> icf p (idx v) = Return () s"
    and inside: "list_all (\<lambda>i. unat i < length (data (buffer v))) (data (indexBuffers s p))"
  shows "\<exists>w1. getIndexedRenderAttributeBuffer cf icf p w = Return (nextAttributeBuffer v) w1 \<and>
      alive w1 (nextAttributeBuffer v) \<and>
      attributeData w1 (nextAttributeBuffer v) =
        map (\<lambda>i. data (buffer v) ! unat i) (data (indexBuffers s p)) \<and>
      (existingIndexedViews (buffer v) = [] \<and>
       (hostBufferIsPopulated (indexBuffers s p) \<and> s' = s \<or>
        \<not> hostBufferIsPopulated (indexBuffers s p) \<and>
          renderAttributeBuffer (indexBuffers s p) = Some q' \<and>
          length (indexAttributeData s q') < 2 ^ 64 \<and>
          s' = s\<lparr>indexBuffers := (indexBuffers s)
                 (p := (indexBuffers s p)\<lparr>data := indexAttributeData s q'\<rparr>)\<rparr> \<or>
        \<not> hostBufferIsPopulated (indexBuffers s p) \<and>
          renderAttributeBuffer (indexBuffers s p) = None \<and>
          dataGetsComputed (indexBuffers s p) \<and> icf p s = Return () s') \<and>
       list_all (\<lambda>i. unat i < length xs) (data (indexBuffers s' p)) \<longrightarrow>
         (\<exists>w3. markHostBufferUpdated icf (writeHostData xs w1) = Return () w3 \<and>
            alive w3 (nextAttributeBuffer v) \<and>
            attributeData w3 (nextAttributeBuffer v) =
              map (\<lambda>i. xs ! unat i) (data (indexBuffers s' p)))) \<and>
      (markHostBufferUpdated icf (writeHostData xs w1) = Return u w3 \<longrightarrow>
         alive w3 (nextAttributeBuffer v) \<and>
         list_all (\<lambda>i. unat i < length xs) (data (indexBuffers (idx w3) p)) \<and>
         attributeData w3 (nextAttributeBuffer v) =
           map (\<lambda>i. xs ! unat i) (data (indexBuffers (idx w3) p)))"
proof -
  let ?w0 = "removeDeletedIndexedViews w"
  let ?n = "nextAttributeBuffer v"
  let ?view = "\<lparr>indices = p, viewBuffer = ?n, deviceUpdateProgram = None\<rparr>"
  have w0: "hostBufferIsPopulated (buffer ?w0) = hostBufferIsPopulated (buffer w)"
    "renderAttributeBuffer (buffer ?w0) = renderAttributeBuffer (buffer w)"
    "dataGetsComputed (buffer ?w0) = dataGetsComputed (buffer w)"
    "attributeData ?w0 = attributeData w" "computeCalls ?w0 = computeCalls w"
    by (simp_all add: removeDeletedIndexedViews_def)
  have src: "ensureHostBufferPopulated cf ?w0 = Return () v"
    using source
    by (auto simp: ensureHostBufferPopulated_def currentCanonicalDataSource_def
          invokeComputeFunc_def writeHostData_def read_back_whole_buffer w0)
  have ind: "indices_ensureHostBufferPopulated icf p (idx v) = Return () s"
    using index
    by (auto simp: indices_ensureHostBufferPopulated_def currentCanonicalDataSource_def
          read_back_whole_buffer)
  define w1 where "w1 = v\<lparr>attributeData := (attributeData v)(?n :=
                   map (\<lambda>i. data (buffer v) ! unat i) (data (indexBuffers s p))),
                alive := (alive v)(?n := True),
                nextAttributeBuffer := Suc ?n,
                idx := s,
                buffer := (buffer v)\<lparr>existingIndexedViews := existingIndexedViews (buffer v) @
                  [?view]\<rparr>\<rparr>"
  have created: "getIndexedRenderAttributeBuffer cf icf p w = Return ?n w1"
    unfolding w1_def by (rule getIndexedRenderAttributeBuffer_new_view [OF miss src ind inside])
  have f1: "alive w1 ?n" "idx w1 = s"
    "attributeData w1 ?n = map (\<lambda>i. data (buffer v) ! unat i) (data (indexBuffers s p))"
    "existingIndexedViews (buffer w1) = existingIndexedViews (buffer v) @ [?view]"
    by (simp_all add: w1_def)
  have total: "\<exists>w3. markHostBufferUpdated icf (writeHostData xs w1) = Return () w3 \<and>
            alive w3 ?n \<and>
            attributeData w3 ?n = map (\<lambda>i. xs ! unat i) (data (indexBuffers s' p))"
    if empty: "existingIndexedViews (buffer v) = []"
      and index': "hostBufferIsPopulated (indexBuffers s p) \<and> s' = s \<or>
        \<not> hostBufferIsPopulated (indexBuffers s p) \<and>
          renderAttributeBuffer (indexBuffers s p) = Some q' \<and>
          length (indexAttributeData s q') < 2 ^ 64 \<and>
          s' = s\<lparr>indexBuffers := (indexBuffers s)
                 (p := (indexBuffers s p)\<lparr>data := indexAttributeData s q'\<rparr>)\<rparr> \<or>
        \<not> hostBufferIsPopulated (indexBuffers s p) \<and>
          renderAttributeBuffer (indexBuffers s p) = None \<and>
          dataGetsComputed (indexBuffers s p) \<and> icf p s = Return () s'"
      and inside': "list_all (\<lambda>i. unat i < length xs) (data (indexBuffers s' p))"
  proof -
    let ?x = "writeHostData xs w1"
    have ind': "indices_ensureHostBufferPopulated icf p s = Return () s'"
      using index'
      by (auto simp: indices_ensureHostBufferPopulated_def currentCanonicalDataSource_def
            read_back_whole_buffer)
    have x: "existingIndexedViews (buffer ?x) = [?view]" "alive ?x (viewBuffer ?view)"
      "indices_ensureHostBufferPopulated icf (indices ?view) (idx ?x) = Return () s'"
      "list_all (\<lambda>i. unat i < length (data (buffer ?x))) (data (indexBuffers s' (indices ?view)))"
      using f1 empty ind' inside' by (simp_all add: writeHostData_def)
    from markHostBufferUpdated_one_view [OF x]
    obtain w3 where r3: "markHostBufferUpdated icf ?x = Return () w3"
      and a3: "attributeData w3 ?n = map (\<lambda>i. xs ! unat i) (data (indexBuffers s' p))"
      by (auto simp: writeHostData_def)
    from markHostBufferUpdated_fields(7) [of icf ?x] r3 f1(1) have "alive w3 ?n"
      by (simp add: writeHostData_def)
    with r3 a3 show ?thesis by blast
  qed
  have refreshed: "alive w3 ?n \<and>
         list_all (\<lambda>i. unat i < length xs) (data (indexBuffers (idx w3) p)) \<and>
         attributeData w3 ?n = map (\<lambda>i. xs ! unat i) (data (indexBuffers (idx w3) p))"
    if ret: "markHostBufferUpdated icf (writeHostData xs w1) = Return u w3"
  proof -
    let ?x = "writeHostData xs w1"
    have x: "existingIndexedViews (buffer ?x) = existingIndexedViews (buffer v) @ [?view]"
      "alive ?x (viewBuffer ?view)" "data (buffer ?x) = xs"
      using f1 by (simp_all add: writeHostData_def)
    from markHostBufferUpdated_refreshes_last [OF x(1) x(2) ret]
    have "gather xs (data (indexBuffers (idx w3) p)) = Inr (attributeData w3 ?n)"
      by (simp add: x(3))
    moreover from markHostBufferUpdated_fields(7) [of icf ?x] ret f1(1) have "alive w3 ?n"
      by (simp add: writeHostData_def)
    ultimately show ?thesis by (simp add: gather_Inr)
  qed
  from created f1(1) f1(3) total refreshed show ?thesis by blast
qed

theorem indexed_view_holds_gather_witness:
  "attributeData (stateOf (getIndexedRenderAttributeBuffer exampleComputeFunc idleIndexCompute 0
      (exampleWorld (ManagedBuffer_host ''values'' 0 [10, 20, 30])))) 0 = [30, 10, 20] \<and>
   attributeData (stateOf (markHostBufferUpdated idleIndexCompute (writeHostData [11, 21, 31]
      (stateOf (getIndexedRenderAttributeBuffer exampleComputeFunc idleIndexCompute 0
         (exampleWorld (ManagedBuffer_host ''values'' 0 [10, 20, 30]))))))) 0 = [31, 11, 21] \<and>
   attributeData (stateOf (getIndexedRenderAttributeBuffer exampleComputeFunc idleIndexCompute 0
      ((exampleDeviceWorld False [] [10, 20, 30])\<lparr>idx := exampleDeviceIndices\<rparr>))) 1 =
     [30, 10, 20] \<and>
   attributeData (stateOf (markHostBufferUpdated idleIndexCompute (writeHostData [11, 21, 31]
      (stateOf (getIndexedRenderAttributeBuffer exampleComputeFunc idleIndexCompute 0
         ((exampleDeviceWorld False [] [10, 20, 30])\<lparr>idx := exampleDeviceIndices\<rparr>)))))) 1 =
     [31, 11, 21] \<and>
   attributeData (stateOf (getIndexedRenderAttributeBuffer exampleComputeFunc exampleIndexCompute 0
      ((exampleWorld (ManagedBuffer_computed ''values'' 0 []))\<lparr>idx := exampleLazyIndices\<rparr>))) 0 =
     [7, 5, 6] \<and>
   attributeData (stateOf (markHostBufferUpdated exampleIndexCompute (writeHostData [11, 21, 31]
      (stateOf (getIndexedRenderAttributeBuffer exampleComputeFunc exampleIndexCompute 0
         ((exampleWorld (ManagedBuffer_computed ''values'' 0 []))\<lparr>idx := exampleLazyIndices\<rparr>)))))) 0 =
     [31, 11, 21]"
proof -
  let ?a = "exampleWorld (ManagedBuffer_host ''values'' 0 [10, 20, 30 :: int])"
  let ?va = "removeDeletedIndexedViews ?a"
  have a: "findIndexedView (alive ?a) (indexBuffers (idx ?a)) (uniqueID (indexBuffers (idx ?a) 0))
        (existingIndexedViews (buffer (removeDeletedIndexedViews ?a))) = None"
    "hostBufferIsPopulated (buffer ?a)"
    "hostBufferIsPopulated (indexBuffers (idx ?va) 0)"
    "existingIndexedViews (buffer ?va) = []"
    "data (buffer ?va) = [10, 20, 30]" "data (indexBuffers (idx ?va) 0) = [2, 0, 1]"
    "nextAttributeBuffer ?va = 0"
    by (simp_all add: exampleWorld_def exampleIndices_def ManagedBuffer_host_def
          removeDeletedIndexedViews_def)
  have ia: "list_all (\<lambda>i. unat i < length (data (buffer ?va))) (data (indexBuffers (idx ?va) 0))"
    "list_all (\<lambda>i. unat i < length [11, 21, 31 :: int]) (data (indexBuffers (idx ?va) 0))"
    by (simp_all add: a)
  from indexed_view_holds_gather [where w = ?a and p = 0 and cf = exampleComputeFunc
      and icf = idleIndexCompute and v = ?va and s = "idx ?va" and s' = "idx ?va"
      and xs = "[11, 21, 31]"] a(1-4) ia
  obtain a1 a3 where ra:
    "getIndexedRenderAttributeBuffer exampleComputeFunc idleIndexCompute 0 ?a =
       Return (nextAttributeBuffer ?va) a1"
    "attributeData a1 (nextAttributeBuffer ?va) =
       map (\<lambda>i. data (buffer ?va) ! unat i) (data (indexBuffers (idx ?va) 0))"
    "markHostBufferUpdated idleIndexCompute (writeHostData [11, 21, 31] a1) = Return () a3"
    "attributeData a3 (nextAttributeBuffer ?va) =
       map (\<lambda>i. [11, 21, 31] ! unat i) (data (indexBuffers (idx ?va) 0))"
    by blast
  have A: "attributeData (stateOf (getIndexedRenderAttributeBuffer exampleComputeFunc idleIndexCompute 0 ?a)) 0 =
      [30, 10, 20]"
    "attributeData (stateOf (markHostBufferUpdated idleIndexCompute (writeHostData [11, 21, 31]
      (stateOf (getIndexedRenderAttributeBuffer exampleComputeFunc idleIndexCompute 0 ?a))))) 0 =
      [31, 11, 21]"
    using ra(2,4) [unfolded a(5-7)] by (simp_all add: ra(1) ra(3))

  let ?b = "(exampleDeviceWorld False [] [10, 20, 30 :: int])\<lparr>idx := exampleDeviceIndices\<rparr>"
  let ?vb = "writeHostData (attributeData ?b 0) (removeDeletedIndexedViews ?b)"
  let ?sb = "(idx ?vb)\<lparr>indexBuffers := (indexBuffers (idx ?vb))
                (0 := (indexBuffers (idx ?vb) 0)\<lparr>data := indexAttributeData (idx ?vb) 0\<rparr>)\<rparr>"
  let ?sb' = "?sb\<lparr>indexBuffers := (indexBuffers ?sb)
                (0 := (indexBuffers ?sb 0)\<lparr>data := indexAttributeData ?sb 0\<rparr>)\<rparr>"
  have b: "findIndexedView (alive ?b) (indexBuffers (idx ?b)) (uniqueID (indexBuffers (idx ?b) 0))
        (existingIndexedViews (buffer (removeDeletedIndexedViews ?b))) = None"
    "\<not> hostBufferIsPopulated (buffer ?b)" "renderAttributeBuffer (buffer ?b) = Some 0"
    "length (attributeData ?b 0) < 2 ^ 64"
    "\<not> hostBufferIsPopulated (indexBuffers (idx ?vb) 0)"
    "renderAttributeBuffer (indexBuffers (idx ?vb) 0) = Some 0"
    "length (indexAttributeData (idx ?vb) 0) < 2 ^ 64"
    "existingIndexedViews (buffer ?vb) = []"
    "\<not> hostBufferIsPopulated (indexBuffers ?sb 0)"
    "renderAttributeBuffer (indexBuffers ?sb 0) = Some 0"
    "length (indexAttributeData ?sb 0) < 2 ^ 64"
    by (simp_all add: exampleDeviceWorld_def exampleDeviceIndices_def ManagedBuffer_computed_def
          removeDeletedIndexedViews_def writeHostData_def)
  have db: "data (buffer ?vb) = [10, 20, 30]" "data (indexBuffers ?sb 0) = [2, 0, 1]"
    "data (indexBuffers ?sb' 0) = [2, 0, 1]" "nextAttributeBuffer ?vb = 1"
    by (simp_all add: exampleDeviceWorld_def exampleDeviceIndices_def ManagedBuffer_computed_def
          removeDeletedIndexedViews_def writeHostData_def)
  have ib: "list_all (\<lambda>i. unat i < length (data (buffer ?vb))) (data (indexBuffers ?sb 0))"
    "list_all (\<lambda>i. unat i < length [11, 21, 31 :: int]) (data (indexBuffers ?sb' 0))"
    by (simp_all add: exampleDeviceWorld_def exampleDeviceIndices_def ManagedBuffer_computed_def
          removeDeletedIndexedViews_def writeHostData_def)
  from indexed_view_holds_gather [where w = ?b and p = 0 and cf = exampleComputeFunc
      and icf = idleIndexCompute and v = ?vb and r = 0 and q = 0 and q' = 0 and s = ?sb
      and s' = ?sb' and xs = "[11, 21, 31]"] b ib
  obtain b1 b3 where rb:
    "getIndexedRenderAttributeBuffer exampleComputeFunc idleIndexCompute 0 ?b =
       Return (nextAttributeBuffer ?vb) b1"
    "attributeData b1 (nextAttributeBuffer ?vb) =
       map (\<lambda>i. data (buffer ?vb) ! unat i) (data (indexBuffers ?sb 0))"
    "markHostBufferUpdated idleIndexCompute (writeHostData [11, 21, 31] b1) = Return () b3"
    "attributeData b3 (nextAttributeBuffer ?vb) =
       map (\<lambda>i. [11, 21, 31] ! unat i) (data (indexBuffers ?sb' 0))"
    by blast
  have B: "attributeData (stateOf (getIndexedRenderAttributeBuffer exampleComputeFunc idleIndexCompute 0 ?b)) 1 =
      [30, 10, 20]"
    "attributeData (stateOf (markHostBufferUpdated idleIndexCompute (writeHostData [11, 21, 31]
      (stateOf (getIndexedRenderAttributeBuffer exampleComputeFunc idleIndexCompute 0 ?b))))) 1 =
      [31, 11, 21]"
    using rb(2,4) [unfolded db] by (simp_all add: rb(1) rb(3))

  let ?c = "(exampleWorld (ManagedBuffer_computed ''values'' 0 ([] :: int list)))\<lparr>idx := exampleLazyIndices\<rparr>"
  let ?cc = "(removeDeletedIndexedViews ?c)\<lparr>computeCalls := Suc (computeCalls ?c)\<rparr>"
  let ?vc = "stateOf (exampleComputeFunc ?cc)"
  let ?sc = "stateOf (exampleIndexCompute 0 (idx ?vc))"
  have vc: "exampleComputeFunc ?cc = Return () ?vc"
    by (rule returns_unit)
       (simp add: exampleComputeFunc_def exampleFill_def populateAndNotify_def
          markHostBufferUpdated_def updateIndexedViews_def removeDeletedIndexedViews_def
          exampleWorld_def ManagedBuffer_computed_def Let_def)
  have sc: "exampleIndexCompute 0 (idx ?vc) = Return () ?sc"
    by (rule returns_unit) (simp add: exampleIndexCompute_def)
  have c: "findIndexedView (alive ?c) (indexBuffers (idx ?c)) (uniqueID (indexBuffers (idx ?c) 0))
        (existingIndexedViews (buffer (removeDeletedIndexedViews ?c))) = None"
    "\<not> hostBufferIsPopulated (buffer ?c)" "renderAttributeBuffer (buffer ?c) = None"
    "dataGetsComputed (buffer ?c)"
    by (simp_all add: exampleWorld_def exampleLazyIndices_def ManagedBuffer_computed_def
          removeDeletedIndexedViews_def)
  have c': "\<not> hostBufferIsPopulated (indexBuffers (idx ?vc) 0)"
    "renderAttributeBuffer (indexBuffers (idx ?vc) 0) = None"
    "dataGetsComputed (indexBuffers (idx ?vc) 0)"
    "existingIndexedViews (buffer ?vc) = []"
    "data (buffer ?vc) = [5, 6, 7]" "nextAttributeBuffer ?vc = 0"
    by (simp_all add: exampleComputeFunc_def exampleFill_def populateAndNotify_def
          markHostBufferUpdated_def updateIndexedViews_def removeDeletedIndexedViews_def
          exampleWorld_def exampleLazyIndices_def ManagedBuffer_computed_def Let_def)
  have c'': "hostBufferIsPopulated (indexBuffers ?sc 0)" "data (indexBuffers ?sc 0) = [2, 0, 1]"
    by (simp_all add: exampleIndexCompute_def)
  have ic: "list_all (\<lambda>i. unat i < length (data (buffer ?vc))) (data (indexBuffers ?sc 0))"
    "list_all (\<lambda>i. unat i < length [11, 21, 31 :: int]) (data (indexBuffers ?sc 0))"
    unfolding c'(5) c''(2) by simp_all
  from indexed_view_holds_gather [where w = ?c and p = 0 and cf = exampleComputeFunc
      and icf = exampleIndexCompute and v = ?vc and s = ?sc and s' = ?sc
      and xs = "[11, 21, 31]"] c vc sc c'(1-4) c''(1) ic
  obtain c1 c3 where rc:
    "getIndexedRenderAttributeBuffer exampleComputeFunc exampleIndexCompute 0 ?c =
       Return (nextAttributeBuffer ?vc) c1"
    "attributeData c1 (nextAttributeBuffer ?vc) =
       map (\<lambda>i. data (buffer ?vc) ! unat i) (data (indexBuffers ?sc 0))"
    "markHostBufferUpdated exampleIndexCompute (writeHostData [11, 21, 31] c1) = Return () c3"
    "attributeData c3 (nextAttributeBuffer ?vc) =
       map (\<lambda>i. [11, 21, 31] ! unat i) (data (indexBuffers ?sc 0))"
    by blast
  have C: "attributeData (stateOf (getIndexedRenderAttributeBuffer exampleComputeFunc exampleIndexCompute 0 ?c)) 0 =
      [7, 5, 6]"
    "attributeData (stateOf (markHostBufferUpdated exampleIndexCompute (writeHostData [11, 21, 31]
      (stateOf (getIndexedRenderAttributeBuffer exampleComputeFunc exampleIndexCompute 0 ?c))))) 0 =
      [31, 11, 21]"
    using rc(2,4) [unfolded c'(5,6) c''(2)] by (simp_all add: rc(1) rc(3))
  from A B C show ?thesis by blast
qed

section \<open>The cache of indexed views\<close>

lemma removeDeletedIndexedViews_all_alive:
  assumes "list_all (\<lambda>entry. alive w (viewBuffer entry)) (existingIndexedViews (buffer w))"
  shows "removeDeletedIndexedViews w = w"
proof -
  from assms
  have "filter (\<lambda>entry. alive w (viewBuffer entry)) (existingIndexedViews (buffer w)) =
      existingIndexedViews (buffer w)"
    by (simp add: list_all_iff)
  then show ?thesis by (simp add: removeDeletedIndexedViews_def)
qed

lemma removeDeletedIndexedViews_alive:
  "list_all (\<lambda>entry. alive (removeDeletedIndexedViews w) (viewBuffer entry))
     (existingIndexedViews (buffer (removeDeletedIndexedViews w)))"
  by (simp add: removeDeletedIndexedViews_def list_all_iff)

lemma findIndexedView_ids:
  "uniqueID \<circ> ibs' = uniqueID \<circ> ibs \<Longrightarrow>
     findIndexedView live ibs' uid vs = findIndexedView live ibs uid vs"
proof (induction vs)
  case Nil
  show ?case by simp
next
  case (Cons view rest)
  from Cons.prems have "uniqueID (ibs' (indices view)) = uniqueID (ibs (indices view))"
    by (simp add: fun_eq_iff)
  with Cons show ?case by simp
qed

lemma findIndexedView_None_append:
  assumes "findIndexedView live ibs uid vs = None"
  shows "findIndexedView live ibs uid (vs @ ws) = findIndexedView live ibs uid ws"
  using assms by (induction vs) (auto split: if_splits)

lemma findIndexedView_more_alive:
  assumes "list_all (\<lambda>entry. live (viewBuffer entry)) vs"
      and "list_all (\<lambda>entry. live' (viewBuffer entry)) vs"
  shows "findIndexedView live' ibs uid vs = findIndexedView live ibs uid vs"
  using assms by (induction vs) auto

text \<open>
  The identity of an index buffer is fixed at its construction. The compute functions of
  the index buffers enter the following lemmas as callbacks that keep it.
\<close>

lemma indices_ensureHostBufferPopulated_ids:
  assumes "\<forall>r s. uniqueID \<circ> indexBuffers (stateOf (icf r s)) = uniqueID \<circ> indexBuffers s"
  shows "uniqueID \<circ> indexBuffers (stateOf (indices_ensureHostBufferPopulated icf p s)) =
           uniqueID \<circ> indexBuffers s"
proof (cases "currentCanonicalDataSource (indexBuffers s p)")
  case (Inl e)
  then show ?thesis by (simp add: indices_ensureHostBufferPopulated_def)
next
  case (Inr src)
  show ?thesis
  proof (cases src)
    case HostData
    with Inr show ?thesis by (simp add: indices_ensureHostBufferPopulated_def)
  next
    case NeedsCompute
    with Inr assms show ?thesis by (simp add: indices_ensureHostBufferPopulated_def)
  next
    case RenderBuffer
    with Inr show ?thesis
      by (auto simp: indices_ensureHostBufferPopulated_def fun_eq_iff split: option.splits)
  qed
qed

lemma ensureIndices_ids:
  assumes "\<forall>r s. uniqueID \<circ> indexBuffers (stateOf (icf r s)) = uniqueID \<circ> indexBuffers s"
  shows "uniqueID \<circ> indexBuffers (idx (stateOf (ensureIndices icf p w))) =
           uniqueID \<circ> indexBuffers (idx w)"
  using indices_ensureHostBufferPopulated_ids [OF assms, of p "idx w"]
  by (simp add: ensureIndices_state)

lemma updateIndexedView_host:
  assumes pop: "hostBufferIsPopulated (buffer w)"
  shows "existingIndexedViews (buffer (stateOf (updateIndexedView icf i view w))) =
           existingIndexedViews (buffer w)"
    and "(\<forall>r s. uniqueID \<circ> indexBuffers (stateOf (icf r s)) = uniqueID \<circ> indexBuffers s) \<Longrightarrow>
         uniqueID \<circ> indexBuffers (idx (stateOf (updateIndexedView icf i view w))) =
           uniqueID \<circ> indexBuffers (idx w)"
proof -
  have st: "stateOf (updateIndexedView icf i view w) = stateOf (ensureIndices icf (indices view) w) \<or>
      (\<exists>xs. stateOf (updateIndexedView icf i view w) =
         setData (viewBuffer view) xs (stateOf (ensureIndices icf (indices view) w)))"
    using pop
    by (cases "ensureIndices icf (indices view) w")
       (auto simp: updateIndexedView_def currentCanonicalDataSource_def split: sum.splits)
  from st show "existingIndexedViews (buffer (stateOf (updateIndexedView icf i view w))) =
           existingIndexedViews (buffer w)"
    by (auto simp: ensureIndices_state setData_def)
  show "uniqueID \<circ> indexBuffers (idx (stateOf (updateIndexedView icf i view w))) =
           uniqueID \<circ> indexBuffers (idx w)"
    if "\<forall>r s. uniqueID \<circ> indexBuffers (stateOf (icf r s)) = uniqueID \<circ> indexBuffers s"
    using st ensureIndices_ids [OF that, of "indices view" w]
    by (auto simp: setData_def)
qed

lemma updateIndexedViews_loop_host:
  assumes ids: "\<forall>r s. uniqueID \<circ> indexBuffers (stateOf (icf r s)) = uniqueID \<circ> indexBuffers s"
  shows "hostBufferIsPopulated (buffer w) \<Longrightarrow>
     existingIndexedViews (buffer (stateOf (updateIndexedViews_loop icf i vs w))) =
       existingIndexedViews (buffer w) \<and>
     uniqueID \<circ> indexBuffers (idx (stateOf (updateIndexedViews_loop icf i vs w))) =
       uniqueID \<circ> indexBuffers (idx w)"
proof (induction vs arbitrary: i w)
  case Nil
  show ?case by simp
next
  case (Cons view rest)
  show ?case
  proof (cases "alive w (viewBuffer view)")
    case False
    with Cons show ?thesis by simp
  next
    case True
    note one = updateIndexedView_host [OF Cons.prems, of icf i view]
    have pop: "hostBufferIsPopulated (buffer (stateOf (updateIndexedView icf i view w)))"
      using sameExceptViews_fields(5) [OF updateIndexedView_frame [of w icf i view]] Cons.prems
      by simp
    show ?thesis
    proof (cases "updateIndexedView icf i view w")
      case (Return u w1)
      with one(1) one(2) [OF ids] pop True Cons.IH [of w1 "Suc i"] show ?thesis by simp
    next
      case (Throw e w1)
      with one(1) one(2) [OF ids] True show ?thesis by simp
    qed
  qed
qed

lemma markHostBufferUpdated_views:
  assumes ids: "\<forall>r s. uniqueID \<circ> indexBuffers (stateOf (icf r s)) = uniqueID \<circ> indexBuffers s"
  shows "existingIndexedViews (buffer (stateOf (markHostBufferUpdated icf w))) =
           filter (\<lambda>entry. alive w (viewBuffer entry)) (existingIndexedViews (buffer w))"
    and "uniqueID \<circ> indexBuffers (idx (stateOf (markHostBufferUpdated icf w))) =
           uniqueID \<circ> indexBuffers (idx w)"
proof -
  define w3 where "w3 = removeDeletedIndexedViews
      (case renderAttributeBuffer (buffer (w\<lparr>buffer := (buffer w)\<lparr>hostBufferIsPopulated := True\<rparr>\<rparr>)) of
         None \<Rightarrow> w\<lparr>buffer := (buffer w)\<lparr>hostBufferIsPopulated := True\<rparr>\<rparr>
       | Some a \<Rightarrow> requestRedraw (setData a
           (data (buffer (w\<lparr>buffer := (buffer w)\<lparr>hostBufferIsPopulated := True\<rparr>\<rparr>)))
           (w\<lparr>buffer := (buffer w)\<lparr>hostBufferIsPopulated := True\<rparr>\<rparr>)))"
  have f3: "existingIndexedViews (buffer w3) =
      filter (\<lambda>entry. alive w (viewBuffer entry)) (existingIndexedViews (buffer w))"
    "hostBufferIsPopulated (buffer w3)" "idx w3 = idx w"
    by (simp_all add: w3_def removeDeletedIndexedViews_def requestRedraw_def setData_def
          split: option.splits)
  have m: "markHostBufferUpdated icf w =
      updateIndexedViews_loop icf 0 (existingIndexedViews (buffer w3)) w3"
    unfolding markHostBufferUpdated_def updateIndexedViews_def Let_def w3_def [symmetric] ..
  from updateIndexedViews_loop_host [OF ids f3(2), of 0 "existingIndexedViews (buffer w3)"]
  show "existingIndexedViews (buffer (stateOf (markHostBufferUpdated icf w))) =
           filter (\<lambda>entry. alive w (viewBuffer entry)) (existingIndexedViews (buffer w))"
    and "uniqueID \<circ> indexBuffers (idx (stateOf (markHostBufferUpdated icf w))) =
           uniqueID \<circ> indexBuffers (idx w)"
    by (simp_all add: m f3(1) f3(3))
qed

lemma ensureHostBufferPopulated_contract:
  assumes contract: "cf = populateAndNotify fill icf"
      and ids: "\<forall>r s. uniqueID \<circ> indexBuffers (stateOf (icf r s)) = uniqueID \<circ> indexBuffers s"
  shows "existingIndexedViews (buffer (stateOf (ensureHostBufferPopulated cf w))) =
           existingIndexedViews (buffer w) \<or>
         existingIndexedViews (buffer (stateOf (ensureHostBufferPopulated cf w))) =
           filter (\<lambda>entry. alive w (viewBuffer entry)) (existingIndexedViews (buffer w))"
    and "alive (stateOf (ensureHostBufferPopulated cf w)) = alive w"
    and "uniqueID \<circ> indexBuffers (idx (stateOf (ensureHostBufferPopulated cf w))) =
           uniqueID \<circ> indexBuffers (idx w)"
proof -
  let ?v = "(w\<lparr>computeCalls := Suc (computeCalls w)\<rparr>)\<lparr>buffer :=
      (buffer (w\<lparr>computeCalls := Suc (computeCalls w)\<rparr>))\<lparr>data := fill (w\<lparr>computeCalls := Suc (computeCalls w)\<rparr>)\<rparr>\<rparr>"
  have cases: "currentCanonicalDataSource (buffer w) \<noteq> Inr NeedsCompute \<or>
      stateOf (ensureHostBufferPopulated cf w) = stateOf (markHostBufferUpdated icf ?v)"
    by (auto simp: ensureHostBufferPopulated_def invokeComputeFunc_def contract populateAndNotify_def
          split: sum.splits CanonicalDataSource.splits)
  have v: "existingIndexedViews (buffer ?v) = existingIndexedViews (buffer w)"
    "alive ?v = alive w" "idx ?v = idx w"
    by simp_all
  from cases show "existingIndexedViews (buffer (stateOf (ensureHostBufferPopulated cf w))) =
           existingIndexedViews (buffer w) \<or>
         existingIndexedViews (buffer (stateOf (ensureHostBufferPopulated cf w))) =
           filter (\<lambda>entry. alive w (viewBuffer entry)) (existingIndexedViews (buffer w))"
    using markHostBufferUpdated_views(1) [OF ids, of ?v]
    by (auto simp: ensureHostBufferPopulated_no_compute)
  from cases show "alive (stateOf (ensureHostBufferPopulated cf w)) = alive w"
    using markHostBufferUpdated_fields(7) [of icf ?v]
    by (auto simp: ensureHostBufferPopulated_no_compute)
  from cases show "uniqueID \<circ> indexBuffers (idx (stateOf (ensureHostBufferPopulated cf w))) =
           uniqueID \<circ> indexBuffers (idx w)"
    using markHostBufferUpdated_views(2) [OF ids, of ?v]
    by (auto simp: ensureHostBufferPopulated_no_compute)
qed


lemma findIndexedView_Some_alive:
  "findIndexedView live ibs uid vs = Some a \<Longrightarrow> live a"
  by (induction vs) (auto split: if_splits)

lemma getIndexedRenderAttributeBuffer_miss:
  assumes miss: "findIndexedView (alive w) (indexBuffers (idx w)) (uniqueID (indexBuffers (idx w) p))
                   (existingIndexedViews (buffer (removeDeletedIndexedViews w))) = None"
      and created: "getIndexedRenderAttributeBuffer cf icf p w = Return a w1"
  shows "existingIndexedViews (buffer w1) =
           existingIndexedViews (buffer (stateOf (ensureHostBufferPopulated cf (removeDeletedIndexedViews w)))) @
             [\<lparr>indices = p, viewBuffer = a, deviceUpdateProgram = None\<rparr>]"
    and "alive w1 = (alive (stateOf (ensureHostBufferPopulated cf (removeDeletedIndexedViews w))))(a := True)"
    and "idx w1 = stateOf (indices_ensureHostBufferPopulated icf p
           (idx (stateOf (ensureHostBufferPopulated cf (removeDeletedIndexedViews w)))))"
proof -
  let ?w0 = "removeDeletedIndexedViews w"
  have w0: "alive ?w0 = alive w" "idx ?w0 = idx w"
    by (simp_all add: removeDeletedIndexedViews_def)
  from created miss obtain u v where
    e: "ensureHostBufferPopulated cf ?w0 = Return u v"
    by (cases "ensureHostBufferPopulated cf ?w0")
       (auto simp: getIndexedRenderAttributeBuffer_def Let_def w0)
  let ?n = "nextAttributeBuffer v"
  let ?w2 = "snd (generateAttributeBuffer v)"
  from created miss e obtain u3 s where
    i: "indices_ensureHostBufferPopulated icf p (idx ?w2) = Return u3 s"
    by (cases "indices_ensureHostBufferPopulated icf p (idx ?w2)")
       (auto simp: getIndexedRenderAttributeBuffer_def Let_def w0 generateAttributeBuffer_def
          ensureIndices_def)
  let ?w3 = "?w2\<lparr>idx := s\<rparr>"
  from created miss e i obtain ex where
    g: "gather (data (buffer ?w3)) (data (indexBuffers (idx ?w3) p)) = Inr ex"
    by (cases "gather (data (buffer ?w3)) (data (indexBuffers (idx ?w3) p))")
       (auto simp: getIndexedRenderAttributeBuffer_def Let_def w0 generateAttributeBuffer_def
          ensureIndices_def)
  from created miss e i g
  have a: "a = ?n" and w1: "w1 = (let w4 = setData ?n ex ?w3
      in w4\<lparr>buffer := (buffer w4)\<lparr>existingIndexedViews :=
           existingIndexedViews (buffer w4) @
             [\<lparr>indices = p, viewBuffer = ?n, deviceUpdateProgram = None\<rparr>]\<rparr>\<rparr>)"
    by (auto simp: getIndexedRenderAttributeBuffer_def Let_def w0 generateAttributeBuffer_def
          ensureIndices_def)
  have i': "indices_ensureHostBufferPopulated icf p (idx v) = Return u3 s"
    using i by (simp add: generateAttributeBuffer_def)
  show "existingIndexedViews (buffer w1) =
           existingIndexedViews (buffer (stateOf (ensureHostBufferPopulated cf ?w0))) @
             [\<lparr>indices = p, viewBuffer = a, deviceUpdateProgram = None\<rparr>]"
    by (simp add: a w1 e Let_def setData_def generateAttributeBuffer_def)
  show "alive w1 = (alive (stateOf (ensureHostBufferPopulated cf ?w0)))(a := True)"
    by (simp add: a w1 e Let_def setData_def generateAttributeBuffer_def)
  show "idx w1 = stateOf (indices_ensureHostBufferPopulated icf p
           (idx (stateOf (ensureHostBufferPopulated cf ?w0))))"
    by (simp add: a w1 e i' Let_def setData_def generateAttributeBuffer_def)
qed

text \<open>
  Claim C5. Let a call of \<open>getIndexedRenderAttributeBuffer\<close> return a handle; the caller
  holds it, so the view is alive. A second call, right after the first, for an index buffer
  with the same \<open>uniqueID\<close> returns the same handle and leaves the whole state as it is:
  no device buffer is allocated, no gather is written and no compute function runs. The
  compute function of the buffer is under its contract, and the compute functions of the
  index buffers keep the identities of the index buffers.
\<close>

theorem indexed_view_cache_hit:
  assumes first: "getIndexedRenderAttributeBuffer cf icf p w = Return a w1"
      and same_id: "uniqueID (indexBuffers (idx w1) q) = uniqueID (indexBuffers (idx w1) p)"
      and contract: "cf = populateAndNotify fill icf"
      and ids: "\<forall>r s. uniqueID \<circ> indexBuffers (stateOf (icf r s)) = uniqueID \<circ> indexBuffers s"
  shows "alive w1 a \<and> getIndexedRenderAttributeBuffer cf icf q w1 = Return a w1"
proof -
  define w0 where "w0 = removeDeletedIndexedViews w"
  have w0: "alive w0 = alive w" "idx w0 = idx w"
    by (simp_all add: w0_def removeDeletedIndexedViews_def)
  have live0: "list_all (\<lambda>entry. alive w0 (viewBuffer entry)) (existingIndexedViews (buffer w0))"
    unfolding w0_def by (rule removeDeletedIndexedViews_alive)
  let ?uid = "uniqueID (indexBuffers (idx w) p)"
  show ?thesis
  proof (cases "findIndexedView (alive w) (indexBuffers (idx w)) ?uid (existingIndexedViews (buffer w0))")
    case (Some a')
    with first have a: "a' = a" and w1: "w1 = w0"
      by (simp_all add: getIndexedRenderAttributeBuffer_def Let_def w0_def [symmetric] w0)
    from Some a have found: "findIndexedView (alive w0) (indexBuffers (idx w0))
        (uniqueID (indexBuffers (idx w0) q)) (existingIndexedViews (buffer w0)) = Some a"
      using same_id by (simp add: w0 w1)
    have again: "removeDeletedIndexedViews w0 = w0"
      by (rule removeDeletedIndexedViews_all_alive [OF live0])
    from found have "getIndexedRenderAttributeBuffer cf icf q w0 = Return a w0"
      by (simp add: getIndexedRenderAttributeBuffer_def Let_def again)
    moreover from found have "alive w0 a" by (rule findIndexedView_Some_alive)
    ultimately show ?thesis by (simp add: w1)
  next
    case None
    then have miss: "findIndexedView (alive w) (indexBuffers (idx w)) ?uid
        (existingIndexedViews (buffer (removeDeletedIndexedViews w))) = None"
      by (simp add: w0_def)
    define v where "v = stateOf (ensureHostBufferPopulated cf w0)"
    note m0 = getIndexedRenderAttributeBuffer_miss [OF miss first, folded w0_def]
    note m = m0 [folded v_def]
    note c = ensureHostBufferPopulated_contract [OF contract ids, of w0, folded v_def]
    have ev: "existingIndexedViews (buffer v) = existingIndexedViews (buffer w0)"
    proof -
      from live0 have "filter (\<lambda>entry. alive w0 (viewBuffer entry)) (existingIndexedViews (buffer w0)) =
          existingIndexedViews (buffer w0)"
        by (simp add: list_all_iff)
      with c(1) show ?thesis by auto
    qed
    let ?new = "\<lparr>indices = p, viewBuffer = a, deviceUpdateProgram = None\<rparr>"
    have views1: "existingIndexedViews (buffer w1) = existingIndexedViews (buffer w0) @ [?new]"
      by (simp add: m(1) ev)
    have alive1: "alive w1 = (alive w)(a := True)"
      by (simp add: m(2) c(2) w0(1))
    have ids1: "uniqueID \<circ> indexBuffers (idx w1) = uniqueID \<circ> indexBuffers (idx w)"
      using indices_ensureHostBufferPopulated_ids [OF ids, of p "idx v"] c(3)
      by (simp add: m(3) w0(2))
    have uid1: "uniqueID (indexBuffers (idx w1) t) = uniqueID (indexBuffers (idx w) t)" for t
      using ids1 by (simp add: fun_eq_iff)
    have old_live: "list_all (\<lambda>entry. alive w (viewBuffer entry)) (existingIndexedViews (buffer w0))"
      using live0 by (simp add: w0(1))
    have old_live1: "list_all (\<lambda>entry. alive w1 (viewBuffer entry)) (existingIndexedViews (buffer w0))"
      using old_live by (simp add: alive1 list_all_iff)
    have all_live1: "list_all (\<lambda>entry. alive w1 (viewBuffer entry)) (existingIndexedViews (buffer w1))"
      using old_live1 by (simp add: views1 alive1)
    have again: "removeDeletedIndexedViews w1 = w1"
      by (rule removeDeletedIndexedViews_all_alive [OF all_live1])
    have old: "findIndexedView (alive w1) (indexBuffers (idx w1)) ?uid (existingIndexedViews (buffer w0)) = None"
      using None
      by (simp add: findIndexedView_ids [OF ids1]
            findIndexedView_more_alive [OF old_live old_live1])
    have step: "findIndexedView (alive w1) (indexBuffers (idx w1)) ?uid
        (existingIndexedViews (buffer w0) @ [?new]) =
        findIndexedView (alive w1) (indexBuffers (idx w1)) ?uid [?new]"
      by (rule findIndexedView_None_append [OF old])
    have last: "findIndexedView (alive w1) (indexBuffers (idx w1)) ?uid [?new] = Some a"
      by (simp add: alive1 uid1)
    have q: "uniqueID (indexBuffers (idx w1) q) = ?uid"
      using same_id by (simp add: uid1)
    have "findIndexedView (alive w1) (indexBuffers (idx w1)) (uniqueID (indexBuffers (idx w1) q))
        (existingIndexedViews (buffer w1)) = Some a"
      by (simp only: views1 q step last)
    then have "getIndexedRenderAttributeBuffer cf icf q w1 = Return a w1"
      by (simp add: getIndexedRenderAttributeBuffer_def Let_def again)
    moreover have "alive w1 a" by (simp add: alive1)
    ultimately show ?thesis by simp
  qed
qed

theorem indexed_view_cache_hit_witness:
  "getIndexedRenderAttributeBuffer exampleComputeFunc idleIndexCompute 0
      (stateOf (getIndexedRenderAttributeBuffer exampleComputeFunc idleIndexCompute 0
         (exampleWorld (ManagedBuffer_host ''values'' 0 [10, 20, 30])))) =
     Return 0 (stateOf (getIndexedRenderAttributeBuffer exampleComputeFunc idleIndexCompute 0
         (exampleWorld (ManagedBuffer_host ''values'' 0 [10, 20, 30]))))"
proof -
  let ?w = "exampleWorld (ManagedBuffer_host ''values'' 0 [10, 20, 30 :: int])"
  have h: "existingIndexedViews (buffer ?w) = []" "hostBufferIsPopulated (buffer ?w)"
    "hostBufferIsPopulated (indexBuffers (idx ?w) 0)"
    "list_all (\<lambda>i. unat i < length (data (buffer ?w))) (data (indexBuffers (idx ?w) 0))"
    by (simp_all add: exampleWorld_def exampleIndices_def ManagedBuffer_host_def)
  have n: "nextAttributeBuffer ?w = 0"
    by (simp add: exampleWorld_def)
  from getIndexedRenderAttributeBuffer_first_view [OF h, of exampleComputeFunc idleIndexCompute]
  obtain w1 where first: "getIndexedRenderAttributeBuffer exampleComputeFunc idleIndexCompute 0 ?w =
      Return 0 w1"
    by (auto simp: n)
  have contract: "exampleComputeFunc = populateAndNotify exampleFill idleIndexCompute"
    by (simp add: exampleComputeFunc_def)
  have ids: "\<forall>r s. uniqueID \<circ> indexBuffers (stateOf (idleIndexCompute r s)) = uniqueID \<circ> indexBuffers s"
    by (simp add: idleIndexCompute_def)
  from indexed_view_cache_hit [OF first refl contract ids]
  have "getIndexedRenderAttributeBuffer exampleComputeFunc idleIndexCompute 0 w1 = Return 0 w1"
    by simp
  with first show ?thesis by simp
qed

section \<open>Data written on the device\<close>



lemma entryKept_refl [simp]: "entryKept e e"
  by (simp add: entryKept_def split: option.splits)


lemma list_all2_entryKept_refl [simp]: "list_all2 entryKept xs xs"
  by (simp add: list_all2_refl)





























end
